theory Spec2Isabelle
  imports Main "HOL-Library.Word"
begin

section \<open>Bytes, strings and Go run-time failures\<close>

text \<open>
  Go byte slices are lists of 8-bit words; Go strings are Isabelle strings (one \<open>char\<close> per
  byte). A run-time panic of the Go program (index out of range, nil dereference, negative
  shift count) is the left injection of a sum type.
\<close>

type_synonym byte = "8 word"
type_synonym bytes = "byte list"

datatype panic =
    IndexOutOfRange
  | NilDereference
  | NegativeShift

definition byte_of_char :: "char \<Rightarrow> byte" where
  "byte_of_char c = of_nat (of_char c)"

definition str :: "string \<Rightarrow> bytes" where
  "str s = map byte_of_char s"

section \<open>The test-vector generator (package testkit)\<close>

subsection \<open>Unpadded standard base64\<close>

definition alphabet :: string where
  "alphabet = ''ABCDEFGHIJKLMNOPQRSTUVWXYZabcdefghijklmnopqrstuvwxyz0123456789+/''"

text \<open>\<open>strings.IndexByte\<close>: the index of the first occurrence, or -1.\<close>

fun IndexByte :: "string \<Rightarrow> char \<Rightarrow> int" where
  "IndexByte [] c = -1"
| "IndexByte (x # xs) c =
     (if x = c then 0 else (let i = IndexByte xs c in if i < 0 then -1 else i + 1))"

text \<open>
  \<open>NotCanonicalBase64\<close>: \<open>s[len(s)-1]\<close> panics on the empty string and
  \<open>alphabet[idx+1]\<close> panics when \<open>idx+1\<close> is not below 64.
\<close>

definition NotCanonicalBase64 :: "string \<Rightarrow> panic + string" where
  "NotCanonicalBase64 s =
     (if s = [] then Inl IndexOutOfRange
      else let idx = IndexByte alphabet (last s) in
        if idx + 1 < 0 \<or> int (length alphabet) \<le> idx + 1 then Inl IndexOutOfRange
        else Inr (butlast s @ [alphabet ! nat (idx + 1)]))"

text \<open>The base64 digit of a 6-bit value.\<close>

definition b64_digit :: "nat \<Rightarrow> char" where
  "b64_digit n = alphabet ! (n mod 64)"

text \<open>
  \<open>base64.RawStdEncoding.EncodeToString\<close>: three bytes give four digits; a remainder
  of one byte gives two digits, of two bytes three digits, and no padding is written.
\<close>

fun b64 :: "bytes \<Rightarrow> string" where
  "b64 [] = []"
| "b64 [a] = [b64_digit (unat a div 4), b64_digit (unat a mod 4 * 16)]"
| "b64 [a, b] =
     [b64_digit (unat a div 4),
      b64_digit (unat a mod 4 * 16 + unat b div 16),
      b64_digit (unat b mod 16 * 4)]"
| "b64 (a # b # c # rest) =
     [b64_digit (unat a div 4),
      b64_digit (unat a mod 4 * 16 + unat b div 16),
      b64_digit (unat b mod 16 * 4 + unat c div 64),
      b64_digit (unat c mod 64)] @ b64 rest"

subsection \<open>Library primitives\<close>

text \<open>
  The cryptographic primitives come from libraries outside the repository and are parameters
  of the model. A primitive that returns \<open>(value, error)\<close> in Go returns a sum here, with
  the error text on the left. \<open>hkdf\<close>, \<open>chacha20\<close> give output streams, read by position.
\<close>

record crypto =
  hkdf :: "bytes \<Rightarrow> bytes \<Rightarrow> bytes \<Rightarrow> nat \<Rightarrow> byte"
  hmac :: "bytes \<Rightarrow> bytes \<Rightarrow> bytes"
  curve25519_X25519 :: "bytes \<Rightarrow> bytes \<Rightarrow> string + bytes"
  seal :: "bytes \<Rightarrow> bytes \<Rightarrow> bytes \<Rightarrow> bytes"
  scrypt_Key :: "bytes \<Rightarrow> bytes \<Rightarrow> int \<Rightarrow> int \<Rightarrow> int \<Rightarrow> int \<Rightarrow> string + bytes"
  chacha20 :: "bytes \<Rightarrow> bytes \<Rightarrow> nat \<Rightarrow> byte"

text \<open>\<open>curve25519.Basepoint\<close>: the byte 9 followed by 31 zero bytes.\<close>

definition Basepoint :: bytes where
  "Basepoint = 9 # replicate 31 0"

text \<open>
  \<open>v, _ := g(...)\<close>: the error is dropped, and \<open>v\<close> is the nil slice when the library
  reported one.
\<close>

definition drop_err :: "string + bytes \<Rightarrow> bytes" where
  "drop_err r = (case r of Inl e \<Rightarrow> [] | Inr v \<Rightarrow> v)"

text \<open>\<open>key := make([]byte, n); hkdf.New(sha256.New, secret, salt, info).Read(key)\<close>.\<close>

definition hkdf_Read :: "crypto \<Rightarrow> bytes \<Rightarrow> bytes \<Rightarrow> bytes \<Rightarrow> nat \<Rightarrow> bytes" where
  "hkdf_Read c secret salt info n = map (hkdf c secret salt info) [0..<n]"

text \<open>
  \<open>aead, _ := chacha20poly1305.New(key); aead.Seal(nil, nonce, plaintext, nil)\<close>:
  \<open>New\<close> fails unless the key has 32 bytes, and \<open>Seal\<close> on the nil AEAD it then leaves
  behind panics.
\<close>

definition aead_Seal :: "crypto \<Rightarrow> bytes \<Rightarrow> bytes \<Rightarrow> bytes \<Rightarrow> panic + bytes" where
  "aead_Seal c key n plaintext =
     (if length key \<noteq> 32 then Inl NilDereference else Inr (seal c key n plaintext))"

text \<open>
  \<open>1 << k\<close> on Go's 64-bit \<open>int\<close>: a negative count panics; bits shifted beyond the
  width are lost and bit 63 is the sign.
\<close>

definition shl1 :: "int \<Rightarrow> panic + int" where
  "shl1 k = (if k < 0 then Inl NegativeShift else Inr (sint (push_bit (nat k) (1 :: 64 word))))"

text \<open>\<open>strconv.Itoa\<close>: decimal digits, with a minus sign for negative numbers.\<close>

fun digits :: "nat \<Rightarrow> string" where
  "digits n = (if n < 10 then [] else digits (n div 10)) @ [char_of (48 + n mod 10)]"

declare digits.simps [simp del]

definition Itoa :: "int \<Rightarrow> string" where
  "Itoa i = (if i < 0 then CHR ''-'' # digits (nat (- i)) else digits (nat i))"

subsection \<open>The generator's state\<close>

text \<open>
  \<open>Rand\<close> draws from a ChaCha20 key stream; the stream is a function from positions to
  bytes and \<open>rpos\<close> is the number of bytes already drawn.
\<close>

record TestFile =
  Buf :: bytes
  keystream :: "nat \<Rightarrow> byte"
  rpos :: nat
  fileKey :: bytes
  streamKey :: bytes
  nonce :: bytes
  payload :: bytes
  expect :: string
  comment :: string
  identities :: "string list"
  passphrases :: "string list"

definition TestFileKey :: bytes where
  "TestFileKey = str ''YELLOW SUBMARINE''"

definition Rand :: "TestFile \<Rightarrow> nat \<Rightarrow> bytes \<times> TestFile" where
  "Rand f n = (map (keystream f) [rpos f ..< rpos f + n], f\<lparr>rpos := rpos f + n\<rparr>)"

definition TextLine :: "TestFile \<Rightarrow> string \<Rightarrow> TestFile" where
  "TextLine f s = f\<lparr>Buf := Buf f @ str s @ str [CHR 0x0A]\<rparr>"

definition VersionLine :: "TestFile \<Rightarrow> string \<Rightarrow> TestFile" where
  "VersionLine f v = TextLine f (''age-encryption.org/'' @ v)"

text \<open>\<open>strings.Join(elems, " ")\<close>.\<close>

fun Join :: "string list \<Rightarrow> string" where
  "Join [] = []"
| "Join [x] = x"
| "Join (x # y # ys) = x @ '' '' @ Join (y # ys)"

definition ArgsLine :: "TestFile \<Rightarrow> string list \<Rightarrow> TestFile" where
  "ArgsLine f args = TextLine f (Join (''->'' # args))"

text \<open>
  \<open>Body\<close>: the loop writes one line per iteration and stops after the first line that
  encodes fewer than 48 bytes.
\<close>

function Body :: "TestFile \<Rightarrow> bytes \<Rightarrow> TestFile" where
  "Body f body =
     (let line = (if length body > 48 then take 48 body else body);
          f' = TextLine f (b64 line);
          body' = drop (length line) body
      in if length line < 48 then f' else Body f' body')"
  by pat_completeness auto
termination
  by (relation "measure (\<lambda>(f, body). length body)") (auto split: if_splits)

declare Body.simps [simp del]

definition Stanza :: "TestFile \<Rightarrow> string list \<Rightarrow> bytes \<Rightarrow> TestFile" where
  "Stanza f args body = Body (ArgsLine f args) body"

definition NewTestFile :: "crypto \<Rightarrow> TestFile" where
  "NewTestFile c =
     \<lparr>Buf = [],
      keystream = chacha20 c (str ''TEST RANDOMNESS TEST RANDOMNESS!'') (replicate 12 0),
      rpos = 0, fileKey = TestFileKey, streamKey = [], nonce = replicate 12 0, payload = [],
      expect = ''success'', comment = [], identities = [], passphrases = []\<rparr>"

definition FileKey :: "TestFile \<Rightarrow> bytes \<Rightarrow> TestFile" where
  "FileKey f key = f\<lparr>fileKey := key\<rparr>"

definition AEADBody :: "crypto \<Rightarrow> TestFile \<Rightarrow> bytes \<Rightarrow> bytes \<Rightarrow> panic + TestFile" where
  "AEADBody c f key body =
     (case aead_Seal c key (replicate 12 0) body of
        Inl e \<Rightarrow> Inl e
      | Inr sealed \<Rightarrow> Inr (Body f sealed))"

definition X25519NoRecordIdentity :: "crypto \<Rightarrow> TestFile \<Rightarrow> bytes \<Rightarrow> panic + TestFile" where
  "X25519NoRecordIdentity c f identity =
     (let recipient = drop_err (curve25519_X25519 c identity Basepoint);
          (ephemeral, f1) = Rand f 32;
          share = drop_err (curve25519_X25519 c ephemeral Basepoint);
          f2 = ArgsLine f1 [''X25519'', b64 share];
          secret = drop_err (curve25519_X25519 c ephemeral recipient);
          key = hkdf_Read c secret (share @ recipient) (str ''age-encryption.org/v1/X25519'') 32
      in AEADBody c f2 key (fileKey f2))"

definition ScryptNoRecordPassphrase ::
    "crypto \<Rightarrow> TestFile \<Rightarrow> string \<Rightarrow> int \<Rightarrow> panic + TestFile" where
  "ScryptNoRecordPassphrase c f passphrase workFactor =
     (let (salt, f1) = Rand f 16;
          f2 = ArgsLine f1 [''scrypt'', b64 salt, Itoa workFactor]
      in case shl1 workFactor of
           Inl e \<Rightarrow> Inl e
         | Inr N \<Rightarrow>
             (let key = drop_err (scrypt_Key c (str passphrase)
                          (str ''age-encryption.org/v1/scrypt'' @ salt) N 8 1 32)
              in AEADBody c f2 key (fileKey f2)))"

definition HMACLine :: "TestFile \<Rightarrow> bytes \<Rightarrow> TestFile" where
  "HMACLine f h = TextLine f (''--- '' @ b64 h)"

text \<open>The bytes written into the hash by \<open>HMAC\<close>: the buffer, then the three dashes.\<close>

definition HMAC_written :: "TestFile \<Rightarrow> bytes" where
  "HMAC_written f = Buf f @ str ''---''"

definition HMAC :: "crypto \<Rightarrow> TestFile \<Rightarrow> TestFile" where
  "HMAC c f =
     (let key = hkdf_Read c (fileKey f) [] (str ''header'') 32;
          h = hmac c key (HMAC_written f)
      in HMACLine f h)"

definition Nonce :: "crypto \<Rightarrow> TestFile \<Rightarrow> bytes \<Rightarrow> TestFile" where
  "Nonce c f n =
     f\<lparr>streamKey := hkdf_Read c (fileKey f) n (str ''payload'') 32, Buf := Buf f @ n\<rparr>"

definition PayloadChunk :: "crypto \<Rightarrow> TestFile \<Rightarrow> bytes \<Rightarrow> panic + TestFile" where
  "PayloadChunk c f plaintext =
     (let f1 = f\<lparr>payload := payload f @ plaintext\<rparr>
      in case aead_Seal c (streamKey f1) (nonce f1) plaintext of
           Inl e \<Rightarrow> Inl e
         | Inr sealed \<Rightarrow>
             Inr (f1\<lparr>Buf := Buf f1 @ sealed, nonce := (nonce f1)[10 := nonce f1 ! 10 + 1]\<rparr>))"

definition PayloadChunkFinal :: "crypto \<Rightarrow> TestFile \<Rightarrow> bytes \<Rightarrow> panic + TestFile" where
  "PayloadChunkFinal c f plaintext =
     (let f1 = f\<lparr>payload := payload f @ plaintext\<rparr>;
          f2 = f1\<lparr>nonce := (nonce f1)[11 := 1]\<rparr>
      in case aead_Seal c (streamKey f2) (nonce f2) plaintext of
           Inl e \<Rightarrow> Inl e
         | Inr sealed \<Rightarrow> Inr (f2\<lparr>Buf := Buf f2 @ sealed\<rparr>))"

definition Payload :: "crypto \<Rightarrow> TestFile \<Rightarrow> string \<Rightarrow> panic + TestFile" where
  "Payload c f plaintext =
     (let (n, f1) = Rand f 16 in PayloadChunkFinal c (Nonce c f1 n) (str plaintext))"

text \<open>A run of \<open>PayloadChunk\<close> calls, one per plaintext, stopping at the first panic.\<close>

fun PayloadChunks :: "crypto \<Rightarrow> TestFile \<Rightarrow> bytes list \<Rightarrow> panic + TestFile" where
  "PayloadChunks c f [] = Inr f"
| "PayloadChunks c f (p # ps) =
     (case PayloadChunk c f p of Inl e \<Rightarrow> Inl e | Inr f' \<Rightarrow> PayloadChunks c f' ps)"

section \<open>The plugin client (package plugin)\<close>

subsection \<open>Stanzas, errors and the connection\<close>

text \<open>
  A Go slice is nil or holds bytes, and \<open>Unwrap\<close> tests its result against nil, so a
  stanza body is an option: \<open>None\<close> is the nil slice.
\<close>

type_synonym slice = "bytes option"

definition bytes_of :: "slice \<Rightarrow> bytes" where
  "bytes_of b = (case b of None \<Rightarrow> [] | Some x \<Rightarrow> x)"

text \<open>\<open>format.Stanza\<close> and \<open>age.Stanza\<close> have the same three fields.\<close>

record stanza =
  Type :: string
  Args :: "string list"
  StanzaBody :: slice

definition mk :: "string \<Rightarrow> string list \<Rightarrow> slice \<Rightarrow> stanza" where
  "mk t as b = \<lparr>Type = t, Args = as, StanzaBody = b\<rparr>"

text \<open>
  Errors: \<open>age.ErrIncorrectIdentity\<close>; \<open>fmt.Errorf\<close> of a fixed text; \<open>fmt.Errorf("%q", s.Body)\<close>;
  an error handed over by the operating system, the stanza codec or a callback;
  \<open>fmt.Errorf("couldn't start plugin: %v", err)\<close>; and the wrapper
  \<open>fmt.Errorf("age-plugin-%s: %w", name, err)\<close> that the deferred function of \<open>Wrap\<close>
  and \<open>Unwrap\<close> puts around every error.
\<close>

datatype error =
    ErrIncorrectIdentity
  | Errorf string
  | QuotedBody bytes
  | External string
  | CouldNotStart error
  | PluginError string error

text \<open>\<open>errors.Is(err, target)\<close>: \<open>%w\<close> keeps the wrapped error reachable.\<close>

fun errors_Is :: "error \<Rightarrow> error \<Rightarrow> bool" where
  "errors_Is (PluginError n e) t = (PluginError n e = t \<or> errors_Is e t)"
| "errors_Is e t = (e = t)"

text \<open>
  What happens on the connection, in order: a stanza marshalled to the plugin's standard
  input, and the four effects of \<open>Close\<close>.
\<close>

datatype event =
    Sent stanza
  | StdinClosed
  | StdoutClosed
  | Interrupted
  | Waited

text \<open>
  \<open>write_err n\<close> is the error of the write after \<open>n\<close> events, if that write fails.
  \<open>wait_err\<close> is what \<open>cmd.Wait\<close> returns.
\<close>

record clientConnection =
  cmd :: "string list"
  trace :: "event list"
  write_err :: "nat \<Rightarrow> error option"
  wait_err :: "error option"

text \<open>
  The world outside the client: the three steps of \<open>openClientConnection\<close> that can fail
  and the results of the successive \<open>ReadStanza\<close> calls on the plugin's standard output.
  Every run of \<open>Wrap\<close> or \<open>Unwrap\<close> that returns has read finitely many stanzas, so the
  results are a list; reading beyond its end is the end of the plugin's output.
\<close>

record world =
  StdoutPipe_err :: "error option"
  StdinPipe_err :: "error option"
  Start_err :: "error option"
  writes :: "nat \<Rightarrow> error option"
  exit_err :: "error option"
  reads :: "(error + stanza) list"

definition openClientConnection :: "world \<Rightarrow> string \<Rightarrow> string \<Rightarrow> error + clientConnection" where
  "openClientConnection w name protocol =
     (case StdoutPipe_err w of Some e \<Rightarrow> Inl e | None \<Rightarrow>
      case StdinPipe_err w of Some e \<Rightarrow> Inl e | None \<Rightarrow>
      case Start_err w of Some e \<Rightarrow> Inl e | None \<Rightarrow>
        Inr \<lparr>cmd = [''age-plugin-'' @ name, ''--age-plugin='' @ protocol], trace = [],
             write_err = writes w, wait_err = exit_err w\<rparr>)"

definition Close :: "clientConnection \<Rightarrow> error option \<times> clientConnection" where
  "Close cc =
     (wait_err cc, cc\<lparr>trace := trace cc @ [StdinClosed, StdoutClosed, Interrupted, Waited]\<rparr>)"

text \<open>\<open>s.Marshal(conn)\<close>: the stanza reaches the plugin, or the write fails.\<close>

definition Marshal :: "clientConnection \<Rightarrow> stanza \<Rightarrow> error option \<times> clientConnection" where
  "Marshal cc s =
     (case write_err cc (length (trace cc)) of
        Some e \<Rightarrow> (Some e, cc)
      | None \<Rightarrow> (None, cc\<lparr>trace := trace cc @ [Sent s]\<rparr>))"

text \<open>
  \<open>sr.ReadStanza()\<close> takes the next result off the plugin's output; at its end the
  reader reports the end of the file.
\<close>

definition read_EOF :: error where
  "read_EOF = External ''failed to read line: EOF''"

subsection \<open>\<open>strconv.Atoi\<close>\<close>

definition is_digit :: "char \<Rightarrow> bool" where
  "is_digit ch = (48 \<le> (of_char ch :: nat) \<and> (of_char ch :: nat) \<le> 57)"

fun digits_value :: "nat \<Rightarrow> string \<Rightarrow> nat" where
  "digits_value acc [] = acc"
| "digits_value acc (ch # s) = digits_value (acc * 10 + (of_char ch - 48)) s"

text \<open>
  An optional sign and at least one decimal digit, nothing else; the value must fit Go's
  64-bit \<open>int\<close>. \<open>None\<close> is a returned error.
\<close>

definition Atoi :: "string \<Rightarrow> int option" where
  "Atoi s =
     (let neg = (s \<noteq> [] \<and> hd s = CHR ''-'');
          ds = (if s \<noteq> [] \<and> (hd s = CHR ''-'' \<or> hd s = CHR ''+'') then tl s else s);
          v = (if neg then - int (digits_value 0 ds) else int (digits_value 0 ds))
      in if ds = [] \<or> \<not> list_all is_digit ds then None
         else if v < - (2 ^ 63) \<or> 2 ^ 63 - 1 < v then None
         else Some v)"

subsection \<open>\<open>Recipient.Wrap\<close>\<close>

record Recipient =
  name :: string
  encoding :: string
  identity :: bool
  DisplayMessage :: "(bytes \<Rightarrow> error option) option"
  RequestValue :: "(bytes \<Rightarrow> bool \<Rightarrow> error + bytes) option"

text \<open>
  One pass through the body of a read loop either goes on to the next stanza, leaves the
  loop (\<open>break ReadLoop\<close>) or returns an error from the function.
\<close>

datatype 'a pass =
    Continue clientConnection 'a
  | Break clientConnection 'a
  | Return error clientConnection

text \<open>Send a stanza without arguments and go on, unless the write fails.\<close>

definition answer :: "clientConnection \<Rightarrow> string \<Rightarrow> slice \<Rightarrow> 'a \<Rightarrow> 'a pass" where
  "answer cc t b st =
     (case Marshal cc (mk t [] b) of
        (Some e, cc') \<Rightarrow> Return e cc'
      | (None, cc') \<Rightarrow> Continue cc' st)"

text \<open>The cases \<open>msg\<close>, \<open>request-secret\<close> and \<open>request-public\<close>, alike in both loops.\<close>

definition on_msg :: "(bytes \<Rightarrow> error option) option \<Rightarrow> stanza \<Rightarrow> clientConnection \<Rightarrow> 'a \<Rightarrow> 'a pass" where
  "on_msg display s cc st =
     (case display of
        None \<Rightarrow> answer cc ''fail'' None st
      | Some d \<Rightarrow>
          (case d (bytes_of (StanzaBody s)) of
             Some e \<Rightarrow> answer cc ''fail'' None st
           | None \<Rightarrow> answer cc ''ok'' None st))"

definition on_request ::
    "(bytes \<Rightarrow> bool \<Rightarrow> error + bytes) option \<Rightarrow> stanza \<Rightarrow> clientConnection \<Rightarrow> 'a \<Rightarrow> 'a pass" where
  "on_request request s cc st =
     (case request of
        None \<Rightarrow> answer cc ''fail'' None st
      | Some rv \<Rightarrow>
          (case rv (bytes_of (StanzaBody s)) (Type s = ''request-secret'') of
             Inl e \<Rightarrow> answer cc ''fail'' None st
           | Inr secret \<Rightarrow> answer cc ''ok'' (Some secret) st))"

definition on_error :: "stanza \<Rightarrow> clientConnection \<Rightarrow> 'a pass" where
  "on_error s cc =
     (case Marshal cc (mk ''ok'' [] None) of
        (Some e, cc') \<Rightarrow> Return e cc'
      | (None, cc') \<Rightarrow> Return (QuotedBody (bytes_of (StanzaBody s))) cc')"

definition malformed_recipient :: error where
  "malformed_recipient = Errorf ''received malformed recipient stanza''"

text \<open>The \<open>switch\<close> of \<open>Wrap\<close>; the state of the loop is the list \<open>stanzas\<close>.\<close>

definition Wrap_switch :: "Recipient \<Rightarrow> stanza \<Rightarrow> clientConnection \<Rightarrow> stanza list \<Rightarrow> stanza list pass" where
  "Wrap_switch r s cc stanzas =
     (if Type s = ''msg'' then on_msg (DisplayMessage r) s cc stanzas
      else if Type s = ''request-secret'' \<or> Type s = ''request-public'' then
        on_request (RequestValue r) s cc stanzas
      else if Type s = ''recipient-stanza'' then
        (if length (Args s) < 2 then Return malformed_recipient cc
         else case Atoi (Args s ! 0) of
           None \<Rightarrow> Return malformed_recipient cc
         | Some n \<Rightarrow>
             if n \<noteq> 0 then Return malformed_recipient cc
             else answer cc ''ok'' None
                    (stanzas @ [mk (Args s ! 1) (drop 2 (Args s)) (StanzaBody s)]))
      else if Type s = ''error'' then on_error s cc
      else if Type s = ''done'' then Break cc stanzas
      else answer cc ''unsupported'' None stanzas)"

fun Wrap_loop ::
    "Recipient \<Rightarrow> (error + stanza) list \<Rightarrow> clientConnection \<Rightarrow> stanza list
     \<Rightarrow> (error + stanza list) \<times> clientConnection" where
  "Wrap_loop r [] cc stanzas = (Inl read_EOF, cc)"
| "Wrap_loop r (Inl e # rs) cc stanzas = (Inl e, cc)"
| "Wrap_loop r (Inr s # rs) cc stanzas =
     (case Wrap_switch r s cc stanzas of
        Continue cc' stanzas' \<Rightarrow> Wrap_loop r rs cc' stanzas'
      | Break cc' stanzas' \<Rightarrow>
          (if length stanzas' = 0 then (Inl (Errorf ''received zero recipient stanzas''), cc')
           else (Inr stanzas', cc'))
      | Return e cc' \<Rightarrow> (Inl e, cc'))"

text \<open>The deferred function: every error leaves under the plugin's name.\<close>

definition wrap_err :: "string \<Rightarrow> error + 'a \<Rightarrow> error + 'a" where
  "wrap_err n res = (case res of Inl e \<Rightarrow> Inl (PluginError n e) | Inr v \<Rightarrow> Inr v)"

text \<open>Phase 1 of \<open>Wrap\<close>, then the read loop.\<close>

definition Wrap_session ::
    "Recipient \<Rightarrow> slice \<Rightarrow> (error + stanza) list \<Rightarrow> clientConnection
     \<Rightarrow> (error + stanza list) \<times> clientConnection" where
  "Wrap_session r key rs cc =
     (case Marshal cc (mk (if identity r then ''add-identity'' else ''add-recipient'')
                          [encoding r] None) of
        (Some e, cc1) \<Rightarrow> (Inl e, cc1)
      | (None, cc1) \<Rightarrow>
     (case Marshal cc1 (mk ''wrap-file-key'' [] key) of
        (Some e, cc2) \<Rightarrow> (Inl e, cc2)
      | (None, cc2) \<Rightarrow>
     (case Marshal cc2 (mk ''done'' [] None) of
        (Some e, cc3) \<Rightarrow> (Inl e, cc3)
      | (None, cc3) \<Rightarrow> Wrap_loop r rs cc3 [])))"

text \<open>
  \<open>Wrap\<close> returns its result and, when the plugin was started, the connection as
  \<open>Close\<close> left it.
\<close>

definition Wrap :: "world \<Rightarrow> Recipient \<Rightarrow> slice \<Rightarrow> (error + stanza list) \<times> clientConnection option" where
  "Wrap w r key =
     (case openClientConnection w (name r) ''recipient-v1'' of
        Inl e \<Rightarrow> (wrap_err (name r) (Inl (CouldNotStart e)), None)
      | Inr cc \<Rightarrow>
          (let (res, cc') = Wrap_session r key (reads w) cc;
               (_, cc'') = Close cc'
           in (wrap_err (name r) res, Some cc'')))"

subsection \<open>\<open>Identity.Unwrap\<close>\<close>

record Identity =
  iname :: string
  iencoding :: string
  iDisplayMessage :: "(bytes \<Rightarrow> error option) option"
  iRequestValue :: "(bytes \<Rightarrow> bool \<Rightarrow> error + bytes) option"

definition malformed_file_key :: error where
  "malformed_file_key = Errorf ''received malformed file-key stanza''"

definition duplicated_file_key :: error where
  "duplicated_file_key = Errorf ''received duplicated file-key stanza''"

text \<open>The \<open>switch\<close> of \<open>Unwrap\<close>; the state of the loop is the variable \<open>fileKey\<close>, here \<open>key\<close>.\<close>

definition Unwrap_switch :: "Identity \<Rightarrow> stanza \<Rightarrow> clientConnection \<Rightarrow> slice \<Rightarrow> slice pass" where
  "Unwrap_switch i s cc key =
     (if Type s = ''msg'' then on_msg (iDisplayMessage i) s cc key
      else if Type s = ''request-secret'' \<or> Type s = ''request-public'' then
        on_request (iRequestValue i) s cc key
      else if Type s = ''file-key'' then
        (if length (Args s) \<noteq> 1 then Return malformed_file_key cc
         else case Atoi (Args s ! 0) of
           None \<Rightarrow> Return malformed_file_key cc
         | Some n \<Rightarrow>
             if n \<noteq> 0 then Return malformed_file_key cc
             else if key \<noteq> None then Return duplicated_file_key cc
             else answer cc ''ok'' None (StanzaBody s))
      else if Type s = ''error'' then on_error s cc
      else if Type s = ''done'' then Break cc key
      else answer cc ''unsupported'' None key)"

fun Unwrap_loop ::
    "Identity \<Rightarrow> (error + stanza) list \<Rightarrow> clientConnection \<Rightarrow> slice
     \<Rightarrow> (error + bytes) \<times> clientConnection" where
  "Unwrap_loop i [] cc key = (Inl read_EOF, cc)"
| "Unwrap_loop i (Inl e # rs) cc key = (Inl e, cc)"
| "Unwrap_loop i (Inr s # rs) cc key =
     (case Unwrap_switch i s cc key of
        Continue cc' key' \<Rightarrow> Unwrap_loop i rs cc' key'
      | Break cc' key' \<Rightarrow>
          (case key' of
             None \<Rightarrow> (Inl ErrIncorrectIdentity, cc')
           | Some k \<Rightarrow> (Inr k, cc'))
      | Return e cc' \<Rightarrow> (Inl e, cc'))"

text \<open>Phase 1 of \<open>Unwrap\<close>: one \<open>recipient-stanza\<close> per header stanza.\<close>

fun send_stanzas :: "clientConnection \<Rightarrow> stanza list \<Rightarrow> error option \<times> clientConnection" where
  "send_stanzas cc [] = (None, cc)"
| "send_stanzas cc (rs # rest) =
     (case Marshal cc (mk ''recipient-stanza'' ([''0'', Type rs] @ Args rs) (StanzaBody rs)) of
        (Some e, cc') \<Rightarrow> (Some e, cc')
      | (None, cc') \<Rightarrow> send_stanzas cc' rest)"

definition Unwrap_session ::
    "Identity \<Rightarrow> stanza list \<Rightarrow> (error + stanza) list \<Rightarrow> clientConnection
     \<Rightarrow> (error + bytes) \<times> clientConnection" where
  "Unwrap_session i stanzas rs cc =
     (case Marshal cc (mk ''add-identity'' [iencoding i] None) of
        (Some e, cc1) \<Rightarrow> (Inl e, cc1)
      | (None, cc1) \<Rightarrow>
     (case send_stanzas cc1 stanzas of
        (Some e, cc2) \<Rightarrow> (Inl e, cc2)
      | (None, cc2) \<Rightarrow>
     (case Marshal cc2 (mk ''done'' [] None) of
        (Some e, cc3) \<Rightarrow> (Inl e, cc3)
      | (None, cc3) \<Rightarrow> Unwrap_loop i rs cc3 None)))"

definition Unwrap :: "world \<Rightarrow> Identity \<Rightarrow> stanza list \<Rightarrow> (error + bytes) \<times> clientConnection option" where
  "Unwrap w i stanzas =
     (case openClientConnection w (iname i) ''identity-v1'' of
        Inl e \<Rightarrow> (wrap_err (iname i) (Inl (CouldNotStart e)), None)
      | Inr cc \<Rightarrow>
          (let (res, cc') = Unwrap_session i stanzas (reads w) cc;
               (_, cc'') = Close cc'
           in (wrap_err (iname i) res, Some cc'')))"

section \<open>Reference notions and sample inputs\<close>

text \<open>
  The wire form of a stanza body in the words of the format: the full lines, each the
  base64 of 48 bytes, then one short line with the base64 of what is left.
\<close>

definition body_text :: "bytes \<Rightarrow> bytes" where
  "body_text b =
     concat (map (\<lambda>i. str (b64 (take 48 (drop (48 * i) b))) @ str [CHR 0x0A])
                 [0..<length b div 48])
     @ str (b64 (drop (48 * (length b div 48)) b)) @ str [CHR 0x0A]"

text \<open>The big-endian encoding of a number in \<open>n\<close> bytes, and the number so encoded.\<close>

fun big_endian :: "nat \<Rightarrow> nat \<Rightarrow> bytes" where
  "big_endian 0 k = []"
| "big_endian (Suc n) k = big_endian n (k div 256) @ [of_nat k]"

definition be_value :: "bytes \<Rightarrow> nat" where
  "be_value bs = foldl (\<lambda>acc b. acc * 256 + unat b) 0 bs"

text \<open>
  Sample inputs for evaluating the model. The primitives of \<open>sample_crypto\<close> are
  stand-ins with the interface of the real ones: \<open>X25519\<close> checks the lengths of its
  arguments and reports a low-order point for every point but the base point, and
  \<open>scrypt.Key\<close> refuses \<open>N \<le> 1\<close>.
\<close>

definition sample_crypto :: crypto where
  "sample_crypto =
     \<lparr>hkdf = (\<lambda>secret salt info i. of_nat (length secret + length salt + i)),
      hmac = (\<lambda>key msg. msg),
      curve25519_X25519 = (\<lambda>scalar point.
        if length scalar \<noteq> 32 then Inl ''bad scalar length''
        else if length point \<noteq> 32 then Inl ''bad point length''
        else if point = Basepoint then Inr scalar
        else Inl ''bad input point: low order point''),
      seal = (\<lambda>key n plaintext. plaintext @ n @ take 4 key),
      scrypt_Key = (\<lambda>password salt N r p keyLen.
        if N \<le> 1 then Inl ''scrypt: N must be > 1 and a power of 2''
        else Inr (replicate (nat keyLen) (of_int N))),
      chacha20 = (\<lambda>key n i. of_nat i)\<rparr>"

definition sample_world :: "(error + stanza) list \<Rightarrow> world" where
  "sample_world rs =
     \<lparr>StdoutPipe_err = None, StdinPipe_err = None, Start_err = None,
      writes = (\<lambda>n. None), exit_err = None, reads = rs\<rparr>"

definition sample_recipient :: Recipient where
  "sample_recipient =
     \<lparr>name = ''test'', encoding = ''age1test1'', identity = False,
      DisplayMessage = None, RequestValue = None\<rparr>"

definition sample_identity :: Identity where
  "sample_identity =
     \<lparr>iname = ''test'', iencoding = ''AGE-PLUGIN-TEST-1'',
      iDisplayMessage = None, iRequestValue = None\<rparr>"

section \<open>Properties of the test-vector generator\<close>

subsection \<open>Base64 and \<open>NotCanonicalBase64\<close>\<close>

lemma length_alphabet: "length alphabet = 64"
  by (simp add: alphabet_def)

lemma distinct_alphabet: "distinct alphabet"
  by (simp add: alphabet_def)

lemma IndexByte_range: "- 1 \<le> IndexByte xs c \<and> IndexByte xs c < int (length xs)"
  by (induction xs) (auto simp: Let_def)

lemma IndexByte_notin: "c \<notin> set xs \<Longrightarrow> IndexByte xs c = - 1"
  by (induction xs) (auto simp: Let_def)

lemma IndexByte_in: "c \<in> set xs \<Longrightarrow> 0 \<le> IndexByte xs c \<and> xs ! nat (IndexByte xs c) = c"
  by (induction xs) (auto simp: Let_def nat_add_distrib)

lemma IndexByte_nth: "distinct xs \<Longrightarrow> i < length xs \<Longrightarrow> IndexByte xs (xs ! i) = int i"
proof (induction xs arbitrary: i)
  case Nil
  then show ?case by simp
next
  case (Cons x xs)
  show ?case
  proof (cases i)
    case 0
    then show ?thesis by simp
  next
    case (Suc j)
    then have j: "j < length xs" using Cons.prems by simp
    then have "xs ! j \<in> set xs" by simp
    then have "x \<noteq> xs ! j" using Cons.prems by auto
    then show ?thesis using Suc Cons.IH [of j] j Cons.prems by (simp add: Let_def)
  qed
qed

lemma IndexByte_of_slash: "IndexByte alphabet (CHR ''/'') = 63"
  by (simp add: alphabet_def)

lemma alphabet_first_last: "alphabet ! 0 = CHR ''A'' \<and> alphabet ! 63 = CHR ''/''"
  by (simp add: alphabet_def)

lemma IndexByte_alphabet_slash: "IndexByte alphabet c = 63 \<longleftrightarrow> c = CHR ''/''"
proof
  assume h: "IndexByte alphabet c = 63"
  then have "c \<in> set alphabet" using IndexByte_notin [of c alphabet] by fastforce
  then have "alphabet ! nat (IndexByte alphabet c) = c" using IndexByte_in by blast
  then show "c = CHR ''/''" using h alphabet_first_last by simp
next
  assume "c = CHR ''/''"
  then show "IndexByte alphabet c = 63" by (simp add: IndexByte_of_slash)
qed

lemma NotCanonicalBase64_panics:
  "isl (NotCanonicalBase64 s) \<longleftrightarrow> s = [] \<or> last s = CHR ''/''"
proof -
  have r: "- 1 \<le> IndexByte alphabet (last s) \<and> IndexByte alphabet (last s) < 64"
    using IndexByte_range [of alphabet "last s"] by (simp add: length_alphabet)
  have "64 \<le> IndexByte alphabet (last s) + 1 \<longleftrightarrow> last s = CHR ''/''"
    using r IndexByte_alphabet_slash [of "last s"] by auto
  then show ?thesis using r
    by (auto simp: NotCanonicalBase64_def Let_def length_alphabet)
qed

lemma NotCanonicalBase64_next:
  assumes "i < 63"
  shows "NotCanonicalBase64 (xs @ [alphabet ! i]) = Inr (xs @ [alphabet ! Suc i])"
proof -
  have "IndexByte alphabet (alphabet ! i) = int i"
    using assms by (intro IndexByte_nth distinct_alphabet) (simp add: length_alphabet)
  then show ?thesis
    using assms by (simp add: NotCanonicalBase64_def Let_def length_alphabet nat_add_distrib)
qed

lemma NotCanonicalBase64_outside:
  assumes "ch \<notin> set alphabet"
  shows "NotCanonicalBase64 (xs @ [ch]) = Inr (xs @ ''A'')"
proof -
  have "IndexByte alphabet ch = - 1" using assms by (rule IndexByte_notin)
  then show ?thesis
    using alphabet_first_last by (simp add: NotCanonicalBase64_def Let_def length_alphabet)
qed

text \<open>
  Claim C10, as the code has it. \<open>NotCanonicalBase64\<close> panics on the empty string and on
  every string that ends in the last symbol of the alphabet, \<open>/\<close>, and on no other string.
  On a string that ends in one of the other 63 symbols it returns the string with that
  symbol replaced by the next one of the alphabet. On a string that ends in a character
  outside the alphabet it returns as well: \<open>IndexByte\<close> gives -1, and the last character
  is replaced by \<open>A\<close>.
\<close>

theorem NotCanonicalBase64_domain:
  "(isl (NotCanonicalBase64 s) \<longleftrightarrow> s = [] \<or> last s = CHR ''/'')
   \<and> (isl (NotCanonicalBase64 s) \<longrightarrow> NotCanonicalBase64 s = Inl IndexOutOfRange)
   \<and> (i < 63 \<longrightarrow> NotCanonicalBase64 (xs @ [alphabet ! i]) = Inr (xs @ [alphabet ! Suc i]))
   \<and> (ch \<notin> set alphabet \<longrightarrow> NotCanonicalBase64 (xs @ [ch]) = Inr (xs @ ''A''))"
proof -
  have "isl (NotCanonicalBase64 s) \<longrightarrow> NotCanonicalBase64 s = Inl IndexOutOfRange"
    by (auto simp: NotCanonicalBase64_def Let_def split: if_splits)
  then show ?thesis
    using NotCanonicalBase64_panics NotCanonicalBase64_next NotCanonicalBase64_outside
    by blast
qed

theorem NotCanonicalBase64_domain_witness:
  "isl (NotCanonicalBase64 ''QUJ/'') \<and> NotCanonicalBase64 ''QUJ/'' = Inl IndexOutOfRange
   \<and> (3::nat) < 63 \<and> NotCanonicalBase64 ''QUJD'' = Inr ''QUJE''
   \<and> CHR ''='' \<notin> set alphabet \<and> NotCanonicalBase64 ''QUJ='' = Inr ''QUJA''"
  using NotCanonicalBase64_domain [of "''QUJ/''" 3 "''QUJ''" "CHR ''=''"]
  by (simp add: alphabet_def)

text \<open>
  Claim C10 as stated fails: the string \<open>=\<close> is not empty and its last character is not in
  the alphabet, yet the function returns on it.
\<close>

theorem NotCanonicalBase64_total_outside_alphabet:
  "CHR ''='' \<notin> set alphabet \<and> NotCanonicalBase64 ''='' = Inr ''A''"
  by (simp add: NotCanonicalBase64_def alphabet_def)

subsection \<open>\<open>Body\<close>\<close>

lemma length_b64: "length (b64 xs) = (4 * length xs + 2) div 3"
  by (induction xs rule: b64.induct) auto

lemma b64_digit_in: "b64_digit n \<in> set alphabet"
  by (simp add: b64_digit_def length_alphabet)

lemma set_b64: "set (b64 xs) \<subseteq> set alphabet"
  by (induction xs rule: b64.induct) (auto simp: b64_digit_in)

lemma newline_notin_alphabet: "CHR 0x0A \<notin> set alphabet"
  by (simp add: alphabet_def)

lemma body_text_short: "length b < 48 \<Longrightarrow> body_text b = str (b64 b) @ str [CHR 0x0A]"
  by (simp add: body_text_def)

lemma body_text_long:
  assumes "48 \<le> length b"
  shows "body_text b = str (b64 (take 48 b)) @ str [CHR 0x0A] @ body_text (drop 48 b)"
proof -
  define n where "n = (length b - 48) div 48"
  have n: "length b div 48 = Suc n"
    using assms by (simp add: n_def le_div_geq)
  have "[0..<Suc n] = 0 # map Suc [0..<n]"
    by (simp add: upt_conv_Cons map_Suc_upt del: upt_Suc)
  then show ?thesis
    using n n_def by (simp add: body_text_def comp_def add.commute del: upt_Suc)
qed

lemma Buf_Body: "Buf (Body f b) = Buf f @ body_text b"
proof (induction f b rule: Body.induct)
  case (1 f body)
  show ?case
  proof (cases "length body < 48")
    case True
    then show ?thesis
      by (subst Body.simps) (simp add: body_text_short TextLine_def)
  next
    case False
    then have ge: "48 \<le> length body" by simp
    have step: "Body f body = Body (TextLine f (b64 (take 48 body))) (drop 48 body)"
      using ge by (subst Body.simps) (auto simp: Let_def)
    have "Buf (Body (TextLine f (b64 (take 48 body))) (drop 48 body))
        = Buf (TextLine f (b64 (take 48 body))) @ body_text (drop 48 body)"
    proof (cases "48 < length body")
      case True
      then show ?thesis using "1.IH" [OF refl refl refl] by simp
    next
      case False
      then have "length body = 48" using ge by simp
      then show ?thesis using "1.IH" [OF refl refl refl] by simp
    qed
    then show ?thesis
      using step body_text_long [OF ge] by (simp add: TextLine_def)
  qed
qed

lemma length_full_line:
  assumes "i < length b div 48"
  shows "length (b64 (take 48 (drop (48 * i) b))) = 64"
proof -
  have "48 * i + 48 \<le> 48 * (length b div 48)" using assms by simp
  also have "\<dots> \<le> length b" by simp
  finally have "length (take 48 (drop (48 * i) b)) = 48" by simp
  then show ?thesis by (simp add: length_b64)
qed

lemma length_short_line:
  "length (b64 (drop (48 * (length b div 48)) b)) = (4 * (length b mod 48) + 2) div 3"
proof -
  have "length (drop (48 * (length b div 48)) b) = length b mod 48"
    by (simp add: minus_mult_div_eq_mod)
  then show ?thesis by (simp add: length_b64)
qed

text \<open>
  Claim C6. For every byte string \<open>b\<close>, \<open>Body\<close> appends to the buffer
  \<open>length b div 48\<close> lines, the \<open>i\<close>-th being the base64 of the \<open>i\<close>-th block of 48 bytes
  and exactly 64 characters long, and then exactly one more line, the base64 of the last
  \<open>length b mod 48\<close> bytes, which is shorter than 64 characters and is empty when the
  length of \<open>b\<close> is a multiple of 48. No line contains a line feed.
\<close>

theorem Body_lines:
  "Buf (Body f b) =
     Buf f
     @ concat (map (\<lambda>i. str (b64 (take 48 (drop (48 * i) b))) @ str [CHR 0x0A])
                   [0..<length b div 48])
     @ str (b64 (drop (48 * (length b div 48)) b)) @ str [CHR 0x0A]
   \<and> (\<forall>i < length b div 48. length (b64 (take 48 (drop (48 * i) b))) = 64)
   \<and> length (drop (48 * (length b div 48)) b) = length b mod 48
   \<and> length (b64 (drop (48 * (length b div 48)) b)) < 64
   \<and> (length b mod 48 = 0 \<longrightarrow> b64 (drop (48 * (length b div 48)) b) = [])
   \<and> (\<forall>x. CHR 0x0A \<notin> set (b64 x))"
proof -
  have m: "length b mod 48 < 48" by simp
  have short: "length (b64 (drop (48 * (length b div 48)) b)) < 64"
    using m by (simp add: length_short_line)
  have empty: "length b mod 48 = 0 \<longrightarrow> b64 (drop (48 * (length b div 48)) b) = []"
  proof
    assume "length b mod 48 = 0"
    then have "length (b64 (drop (48 * (length b div 48)) b)) = 0"
      by (simp add: length_short_line)
    then show "b64 (drop (48 * (length b div 48)) b) = []" by simp
  qed
  have nl: "\<forall>x. CHR 0x0A \<notin> set (b64 x)"
    using set_b64 newline_notin_alphabet by blast
  have len: "length (drop (48 * (length b div 48)) b) = length b mod 48"
    by (simp add: minus_mult_div_eq_mod)
  show ?thesis
    using Buf_Body [of f b] length_full_line [of _ b] short empty nl len
    by (simp add: body_text_def)
qed

theorem Body_lines_witness:
  "(0::nat) < length (str ''YELLOW SUBMARINEYELLOW SUBMARINEYELLOW SUBMARINE'') div 48
   \<and> length (str ''YELLOW SUBMARINEYELLOW SUBMARINEYELLOW SUBMARINE'') mod 48 = 0
   \<and> Buf (Body (NewTestFile sample_crypto)
             (str ''YELLOW SUBMARINEYELLOW SUBMARINEYELLOW SUBMARINE''))
      = str (''WUVMTE9XIFNVQk1BUklORVlFTExPVyBTVUJNQVJJTkVZRUxMT1cgU1VCTUFSSU5F'' @ [CHR 0x0A]
             @ [CHR 0x0A])
   \<and> length (b64 (take 48 (drop (48 * 0)
        (str ''YELLOW SUBMARINEYELLOW SUBMARINEYELLOW SUBMARINE'')))) = 64
   \<and> b64 (drop (48 * (length (str ''YELLOW SUBMARINEYELLOW SUBMARINEYELLOW SUBMARINE'') div 48))
        (str ''YELLOW SUBMARINEYELLOW SUBMARINEYELLOW SUBMARINE'')) = []"
proof -
  let ?b = "str ''YELLOW SUBMARINEYELLOW SUBMARINEYELLOW SUBMARINE''"
  have l: "length ?b = 48" by (simp add: str_def)
  have h0: "(0::nat) < length ?b div 48" and h1: "length ?b mod 48 = 0"
    by (simp_all add: l)
  have e: "Buf (NewTestFile sample_crypto) = []" by (simp add: NewTestFile_def)
  have v: "b64 ?b = ''WUVMTE9XIFNVQk1BUklORVlFTExPVyBTVUJNQVJJTkVZRUxMT1cgU1VCTUFSSU5F''"
    by code_simp
  note t = Body_lines [of "NewTestFile sample_crypto" ?b]
  from t have full: "length (b64 (take 48 (drop (48 * 0) ?b))) = 64"
    using h0 by blast
  from t have last: "b64 (drop (48 * (length ?b div 48)) ?b) = []"
    using h1 by blast
  from t have "Buf (Body (NewTestFile sample_crypto) ?b)
      = str (b64 (take 48 ?b)) @ str [CHR 0x0A] @ str [] @ str [CHR 0x0A]"
    unfolding last by (simp add: l e)
  then have "Buf (Body (NewTestFile sample_crypto) ?b)
      = str (b64 ?b) @ str [CHR 0x0A] @ str [CHR 0x0A]"
    using l by (simp add: str_def)
  then show ?thesis
    using h0 h1 full last unfolding v by (simp add: str_def)
qed

subsection \<open>\<open>HMAC\<close>\<close>

text \<open>
  Claim C1, as the code has it. \<open>HMAC\<close> appends the line \<open>--- base64(h)\<close>, where \<open>h\<close> is
  the MAC, under the 32-byte key that HKDF derives from the file key with no salt and the
  info \<open>header\<close>, of the buffer followed by the three bytes \<open>---\<close>. The space that
  follows the dashes in the written line is not part of the authenticated bytes.
\<close>

theorem HMAC_line:
  "Buf (HMAC c f) =
     Buf f @ str ''--- ''
     @ str (b64 (hmac c (hkdf_Read c (fileKey f) [] (str ''header'') 32) (Buf f @ str ''---'')))
     @ str [CHR 0x0A]
   \<and> length (hkdf_Read c (fileKey f) [] (str ''header'') 32) = 32
   \<and> HMAC_written f = Buf f @ str ''---''"
  by (simp add: HMAC_def HMACLine_def TextLine_def HMAC_written_def hkdf_Read_def str_def
        Let_def)

text \<open>
  Claim C1 as stated fails: for the header that holds the version line alone, the bytes
  written into the hash end with the three dashes, without the space; and with a MAC that
  returns its message, the line written differs from the one the claim describes.
\<close>

theorem HMAC_excludes_space:
  "HMAC_written (VersionLine (NewTestFile sample_crypto) ''v1'')
     = str (''age-encryption.org/v1'' @ [CHR 0x0A] @ ''---'')
   \<and> HMAC_written (VersionLine (NewTestFile sample_crypto) ''v1'')
     \<noteq> Buf (VersionLine (NewTestFile sample_crypto) ''v1'') @ str ''--- ''
   \<and> Buf (HMAC sample_crypto (VersionLine (NewTestFile sample_crypto) ''v1''))
     \<noteq> Buf (VersionLine (NewTestFile sample_crypto) ''v1'') @ str ''--- ''
       @ str (b64 (hmac sample_crypto
                (hkdf_Read sample_crypto (fileKey (VersionLine (NewTestFile sample_crypto) ''v1''))
                   [] (str ''header'') 32)
                (Buf (VersionLine (NewTestFile sample_crypto) ''v1'') @ str ''--- '')))
       @ str [CHR 0x0A]"
  by code_simp

subsection \<open>The payload nonce\<close>

lemma PayloadChunk_ok:
  assumes "length (streamKey f) = 32"
  shows "PayloadChunk c f p =
           Inr (f\<lparr>payload := payload f @ p, Buf := Buf f @ seal c (streamKey f) (nonce f) p,
                  nonce := (nonce f)[10 := nonce f ! 10 + 1]\<rparr>)"
  using assms by (simp add: PayloadChunk_def aead_Seal_def Let_def)

lemma PayloadChunks_run:
  assumes "length (streamKey f) = 32" and "length (nonce f) = 12"
  shows "\<exists>f'. PayloadChunks c f ps = Inr f'
           \<and> streamKey f' = streamKey f
           \<and> nonce f' = (nonce f)[10 := nonce f ! 10 + of_nat (length ps)]
           \<and> Buf f' = Buf f @ concat (map (\<lambda>i. seal c (streamKey f)
                          ((nonce f)[10 := nonce f ! 10 + of_nat i]) (ps ! i)) [0..<length ps])"
  using assms
proof (induction ps arbitrary: f)
  case Nil
  then show ?case by simp
next
  case (Cons p ps)
  let ?f1 = "f\<lparr>payload := payload f @ p, Buf := Buf f @ seal c (streamKey f) (nonce f) p,
                nonce := (nonce f)[10 := nonce f ! 10 + 1]\<rparr>"
  have s1: "PayloadChunk c f p = Inr ?f1"
    using Cons.prems by (simp add: PayloadChunk_ok)
  have k: "length (streamKey ?f1) = 32" and n: "length (nonce ?f1) = 12"
    using Cons.prems by simp_all
  from Cons.IH [OF k n] obtain f' where
    r: "PayloadChunks c ?f1 ps = Inr f'" and
    sk: "streamKey f' = streamKey ?f1" and
    nn: "nonce f' = (nonce ?f1)[10 := nonce ?f1 ! 10 + of_nat (length ps)]" and
    bb: "Buf f' = Buf ?f1 @ concat (map (\<lambda>i. seal c (streamKey ?f1)
                    ((nonce ?f1)[10 := nonce ?f1 ! 10 + of_nat i]) (ps ! i)) [0..<length ps])"
    by blast
  have ten: "(10::nat) < length (nonce f)" using Cons.prems by simp
  have up: "[0..<Suc (length ps)] = 0 # map Suc [0..<length ps]"
    by (simp add: upt_conv_Cons map_Suc_upt del: upt_Suc)
  have "PayloadChunks c f (p # ps) = Inr f'" using s1 r by simp
  moreover have "streamKey f' = streamKey f" using sk by simp
  moreover have "nonce f' = (nonce f)[10 := nonce f ! 10 + of_nat (length (p # ps))]"
    using nn ten by (simp add: add.assoc)
  moreover have "Buf f' = Buf f @ concat (map (\<lambda>i. seal c (streamKey f)
                    ((nonce f)[10 := nonce f ! 10 + of_nat i]) ((p # ps) ! i))
                    [0..<length (p # ps)])"
    using bb ten by (simp add: up comp_def add.assoc del: upt_Suc)
  ultimately show ?case by blast
qed

lemma zero_nonce_update: "(replicate 12 (0::byte))[10 := x] = replicate 10 0 @ [x, 0]"
  by (simp add: numeral_eq_Suc)

lemma zero_nonce_final: "(replicate 10 (0::byte) @ [x, 0])[11 := y] = replicate 10 0 @ [x, y]"
  by (simp add: numeral_eq_Suc)

lemma big_endian_0: "big_endian n 0 = replicate n 0"
  by (induction n) (simp_all add: replicate_append_same)

lemma big_endian_11_small:
  assumes "k < 256"
  shows "big_endian 11 k = replicate 10 0 @ [of_nat k]"
proof -
  have e: "(11::nat) = Suc 10" by simp
  have "big_endian 11 k = big_endian 10 (k div 256) @ [of_nat k]"
    unfolding e by (rule big_endian.simps(2))
  then show ?thesis using assms by (simp add: big_endian_0)
qed

lemma be_value_zeros: "foldl (\<lambda>acc b. acc * 256 + unat b) 0 (replicate n (0::byte)) = 0"
  by (induction n) simp_all

lemma be_value_low_byte: "be_value (replicate 10 0 @ [x]) = unat x"
  by (simp add: be_value_def be_value_zeros)

text \<open>
  Claim C9. Started with a 32-byte stream key, any run of \<open>PayloadChunk\<close> calls returns, and
  after \<open>k\<close> calls byte 10 of the nonce has grown by \<open>k\<close> modulo 256 while the eleven other
  bytes are what they were: nothing is carried into bytes 0 to 9. After 256 calls the
  nonce is the one the run started with. From the all-zero nonce, the eleven counter bytes
  read as a big-endian number are the number of chunks exactly when that number is below
  256.
\<close>

theorem PayloadChunk_counter_wraps:
  assumes "length (streamKey f) = 32" and "length (nonce f) = 12"
  shows "\<exists>f'. PayloadChunks c f ps = Inr f'
           \<and> nonce f' = (nonce f)[10 := nonce f ! 10 + of_nat (length ps)]
           \<and> (\<forall>j < 12. j \<noteq> 10 \<longrightarrow> nonce f' ! j = nonce f ! j)
           \<and> unat (nonce f' ! 10) = (unat (nonce f ! 10) + length ps) mod 256
           \<and> (length ps = 256 \<longrightarrow> nonce f' = nonce f)
           \<and> (nonce f = replicate 12 0 \<longrightarrow>
                (be_value (take 11 (nonce f')) = length ps \<longleftrightarrow> length ps < 256))"
proof -
  from PayloadChunks_run [OF assms, of c ps] obtain f' where
    r: "PayloadChunks c f ps = Inr f'" and
    nn: "nonce f' = (nonce f)[10 := nonce f ! 10 + of_nat (length ps)]"
    by blast
  have ten: "(10::nat) < length (nonce f)" using assms by simp
  have others: "\<forall>j < 12. j \<noteq> 10 \<longrightarrow> nonce f' ! j = nonce f ! j"
    using nn by simp
  have low: "unat (nonce f' ! 10) = (unat (nonce f ! 10) + length ps) mod 256"
    using nn ten by (simp add: unat_word_ariths unat_of_nat mod_add_right_eq)
  have wrap: "length ps = 256 \<longrightarrow> nonce f' = nonce f"
  proof
    assume l: "length ps = 256"
    have "(of_nat (length ps) :: byte) = 0" unfolding l by simp
    then show "nonce f' = nonce f" using nn by simp
  qed
  have count: "nonce f = replicate 12 0 \<longrightarrow>
                 (be_value (take 11 (nonce f')) = length ps \<longleftrightarrow> length ps < 256)"
  proof
    assume z: "nonce f = replicate 12 0"
    have "nonce f' = replicate 10 0 @ [of_nat (length ps), 0]"
      using nn z by (simp add: zero_nonce_update)
    then have "take 11 (nonce f') = replicate 10 0 @ [of_nat (length ps)]"
      by simp
    then have "be_value (take 11 (nonce f')) = length ps mod 256"
      by (simp add: be_value_low_byte unat_of_nat)
    then show "be_value (take 11 (nonce f')) = length ps \<longleftrightarrow> length ps < 256"
      by (simp add: mod_eq_self_iff_div_eq_0 div_eq_0_iff)
  qed
  show ?thesis using r nn others low wrap count by blast
qed

theorem PayloadChunk_counter_wraps_witness:
  "length (streamKey (Nonce sample_crypto (NewTestFile sample_crypto) [])) = 32
   \<and> length (nonce (Nonce sample_crypto (NewTestFile sample_crypto) [])) = 12
   \<and> map_sum id nonce
        (PayloadChunks sample_crypto (Nonce sample_crypto (NewTestFile sample_crypto) [])
           [[1], [2], [3]])
      = Inr [0, 0, 0, 0, 0, 0, 0, 0, 0, 0, 3, 0]"
proof -
  let ?f = "Nonce sample_crypto (NewTestFile sample_crypto) []"
  have k: "length (streamKey ?f) = 32" by (simp add: Nonce_def hkdf_Read_def)
  have n: "length (nonce ?f) = 12" by (simp add: Nonce_def NewTestFile_def)
  have z: "nonce ?f = replicate 12 0" by (simp add: Nonce_def NewTestFile_def)
  from PayloadChunk_counter_wraps [OF k n, of sample_crypto "[[1], [2], [3]]"]
  obtain f' where
    r: "PayloadChunks sample_crypto ?f [[1], [2], [3]] = Inr f'" and
    nn: "nonce f' = (nonce ?f)[10 := nonce ?f ! 10 + of_nat (length [[1::byte], [2], [3]])]"
    by blast
  have "nonce f' = [0, 0, 0, 0, 0, 0, 0, 0, 0, 0, 3, 0]"
    unfolding nn z by (simp add: numeral_eq_Suc)
  then show ?thesis using k n r by simp
qed

lemma PayloadChunkFinal_ok:
  assumes "length (streamKey f) = 32"
  shows "PayloadChunkFinal c f p =
           Inr (f\<lparr>payload := payload f @ p, nonce := (nonce f)[11 := 1],
                  Buf := Buf f @ seal c (streamKey f) ((nonce f)[11 := 1]) p\<rparr>)"
  using assms by (simp add: PayloadChunkFinal_def aead_Seal_def Let_def)

lemma stream_nonces:
  assumes "length (streamKey f) = 32" and "nonce f = replicate 12 0" and "length ps < 256"
  shows "\<exists>f' f''. PayloadChunks c f ps = Inr f'
           \<and> PayloadChunkFinal c f' p = Inr f''
           \<and> Buf f' = Buf f @ concat (map (\<lambda>i. seal c (streamKey f)
                          (big_endian 11 i @ [0]) (ps ! i)) [0..<length ps])
           \<and> Buf f'' = Buf f' @ seal c (streamKey f) (big_endian 11 (length ps) @ [1]) p
           \<and> nonce f'' = big_endian 11 (length ps) @ [1]"
proof -
  have n: "length (nonce f) = 12" using assms(2) by simp
  from PayloadChunks_run [OF assms(1) n, of c ps] obtain f' where
    r: "PayloadChunks c f ps = Inr f'" and
    sk: "streamKey f' = streamKey f" and
    nn: "nonce f' = (nonce f)[10 := nonce f ! 10 + of_nat (length ps)]" and
    bb: "Buf f' = Buf f @ concat (map (\<lambda>i. seal c (streamKey f)
                    ((nonce f)[10 := nonce f ! 10 + of_nat i]) (ps ! i)) [0..<length ps])"
    by blast
  have enc: "(nonce f)[10 := nonce f ! 10 + of_nat i] = big_endian 11 i @ [0]" if "i < 256" for i
    using that assms(2) by (simp add: zero_nonce_update big_endian_11_small)
  have me: "map (\<lambda>i. seal c (streamKey f) ((nonce f)[10 := nonce f ! 10 + of_nat i]) (ps ! i))
            [0..<length ps]
      = map (\<lambda>i. seal c (streamKey f) (big_endian 11 i @ [0]) (ps ! i)) [0..<length ps]"
  proof (rule map_cong [OF refl])
    fix i
    assume "i \<in> set [0..<length ps]"
    then have "i < 256" using assms(3) by simp
    then show "seal c (streamKey f) ((nonce f)[10 := nonce f ! 10 + of_nat i]) (ps ! i)
             = seal c (streamKey f) (big_endian 11 i @ [0]) (ps ! i)"
      by (simp add: enc)
  qed
  have b1: "Buf f' = Buf f @ concat (map (\<lambda>i. seal c (streamKey f)
                    (big_endian 11 i @ [0]) (ps ! i)) [0..<length ps])"
    by (simp only: bb me)
  have last: "(nonce f')[11 := 1] = big_endian 11 (length ps) @ [1]"
    using nn assms(2,3)
    by (simp add: zero_nonce_update zero_nonce_final big_endian_11_small)
  have k': "length (streamKey f') = 32" using sk assms(1) by simp
  let ?f'' = "f'\<lparr>payload := payload f' @ p, nonce := (nonce f')[11 := 1],
                  Buf := Buf f' @ seal c (streamKey f') ((nonce f')[11 := 1]) p\<rparr>"
  have fin: "PayloadChunkFinal c f' p = Inr ?f''"
    using k' by (rule PayloadChunkFinal_ok)
  have "Buf ?f'' = Buf f' @ seal c (streamKey f) (big_endian 11 (length ps) @ [1]) p"
    using last sk by simp
  moreover have "nonce ?f'' = big_endian 11 (length ps) @ [1]"
    using last by simp
  ultimately show ?thesis using r fin b1 by blast
qed

text \<open>
  Claim C2, as the code has it. In a stream that starts with a 32-byte stream key and the
  all-zero nonce and has fewer than 256 non-final chunks, chunk \<open>i\<close> is sealed under the
  nonce made of the eleven-byte big-endian encoding of \<open>i\<close> and the flag byte 0, and the
  final chunk, written after \<open>k\<close> calls of \<open>PayloadChunk\<close>, is sealed under the encoding of
  \<open>k\<close> and the flag byte 1; the final call does not advance the counter.
\<close>

theorem payload_nonces:
  assumes "length (streamKey f) = 32" and "nonce f = replicate 12 0" and "length ps < 256"
  shows "\<exists>f' f''. PayloadChunks c f ps = Inr f'
           \<and> PayloadChunkFinal c f' p = Inr f''
           \<and> Buf f' = Buf f @ concat (map (\<lambda>i. seal c (streamKey f)
                          (big_endian 11 i @ [0]) (ps ! i)) [0..<length ps])
           \<and> Buf f'' = Buf f' @ seal c (streamKey f) (big_endian 11 (length ps) @ [1]) p
           \<and> nonce f'' = big_endian 11 (length ps) @ [1]"
  using assms by (rule stream_nonces)

theorem payload_nonces_witness:
  "length (streamKey (Nonce sample_crypto (NewTestFile sample_crypto) [])) = 32
   \<and> nonce (Nonce sample_crypto (NewTestFile sample_crypto) []) = replicate 12 0
   \<and> length [[1::byte], [2]] < 256
   \<and> (case PayloadChunks sample_crypto (Nonce sample_crypto (NewTestFile sample_crypto) [])
             [[1], [2]] of
        Inl e \<Rightarrow> Inl e
      | Inr f' \<Rightarrow> map_sum id nonce (PayloadChunkFinal sample_crypto f' [3]))
      = Inr (big_endian 11 2 @ [1])"
proof -
  let ?f = "Nonce sample_crypto (NewTestFile sample_crypto) []"
  have k: "length (streamKey ?f) = 32" by (simp add: Nonce_def hkdf_Read_def)
  have z: "nonce ?f = replicate 12 0" by (simp add: Nonce_def NewTestFile_def)
  have l: "length [[1::byte], [2]] < 256" by simp
  have l2: "length [[1::byte], [2]] = 2" by simp
  from payload_nonces [OF k z l, of sample_crypto "[3]"] obtain f' f'' where
    r: "PayloadChunks sample_crypto ?f [[1], [2]] = Inr f'" and
    fin: "PayloadChunkFinal sample_crypto f' [3] = Inr f''" and
    nn: "nonce f'' = big_endian 11 (length [[1::byte], [2]]) @ [1]"
    by blast
  have "(case PayloadChunks sample_crypto ?f [[1], [2]] of
           Inl e \<Rightarrow> Inl e
         | Inr f' \<Rightarrow> map_sum id nonce (PayloadChunkFinal sample_crypto f' [3]))
        = Inr (big_endian 11 2 @ [1])"
    unfolding r using fin nn [unfolded l2] by simp
  then show ?thesis using k z l by blast
qed

text \<open>
  Claim C2 as stated fails at \<open>k = 256\<close>: after 256 calls of \<open>PayloadChunk\<close> the final chunk
  is sealed under counter value 0, the nonce of a stream with no other chunk, and not
  under the big-endian encoding of 256.
\<close>

theorem payload_nonce_repeats_at_256:
  "(case PayloadChunks sample_crypto (Nonce sample_crypto (NewTestFile sample_crypto) [])
           (replicate 256 []) of
      Inl e \<Rightarrow> Inl e
    | Inr f' \<Rightarrow> map_sum id nonce (PayloadChunkFinal sample_crypto f' []))
     = Inr (big_endian 11 0 @ [1])
   \<and> big_endian 11 0 @ [1] \<noteq> big_endian 11 256 @ [1]"
proof -
  let ?f = "Nonce sample_crypto (NewTestFile sample_crypto) []"
  have k: "length (streamKey ?f) = 32" by (simp add: Nonce_def hkdf_Read_def)
  have z: "nonce ?f = replicate 12 0" by (simp add: Nonce_def NewTestFile_def)
  have n: "length (nonce ?f) = 12" by (simp add: z)
  from PayloadChunks_run [OF k n, of sample_crypto "replicate 256 []"] obtain f' where
    r: "PayloadChunks sample_crypto ?f (replicate 256 []) = Inr f'" and
    sk: "streamKey f' = streamKey ?f" and
    nn: "nonce f' = (nonce ?f)[10 := nonce ?f ! 10 + of_nat (length (replicate 256 ([]::bytes)))]"
    by blast
  have w: "(of_nat (length (replicate 256 ([]::bytes))) :: byte) = 0" by simp
  have "nonce f' = replicate 12 0" unfolding nn w z by (simp add: numeral_eq_Suc)
  then have "(nonce f')[11 := 1] = big_endian 11 0 @ [1]"
    by (simp add: big_endian_0) (simp add: numeral_eq_Suc)
  moreover have "length (streamKey f') = 32" using sk k by simp
  ultimately have "map_sum id nonce (PayloadChunkFinal sample_crypto f' [])
      = Inr (big_endian 11 0 @ [1])"
    by (simp add: PayloadChunkFinal_ok)
  moreover have "big_endian 11 0 @ [1] \<noteq> big_endian 11 256 @ [1]"
    by code_simp
  ultimately show ?thesis unfolding r by simp
qed

subsection \<open>Recipient stanzas\<close>

lemma Buf_TextLine: "Buf (TextLine f s) = Buf f @ str s @ str [CHR 0x0A]"
  by (simp add: TextLine_def)

lemma fileKey_TextLine: "fileKey (TextLine f s) = fileKey f"
  by (simp add: TextLine_def)

lemma str_append: "str (a @ b) = str a @ str b"
  by (simp add: str_def)

lemma AEADBody_ok:
  assumes "length key = 32"
  shows "\<exists>f'. AEADBody c f key body = Inr f'
           \<and> Buf f' = Buf f @ body_text (seal c key (replicate 12 0) body)"
  using assms by (simp add: AEADBody_def aead_Seal_def Buf_Body)

lemma X25519_emits:
  "\<exists>f'. X25519NoRecordIdentity c f ident = Inr f'
     \<and> Buf f' =
         Buf f
         @ str (''-> X25519 '' @
                b64 (drop_err (curve25519_X25519 c (map (keystream f) [rpos f..<rpos f + 32])
                                 Basepoint)))
         @ str [CHR 0x0A]
         @ body_text
             (seal c
                (hkdf_Read c
                   (drop_err (curve25519_X25519 c (map (keystream f) [rpos f..<rpos f + 32])
                      (drop_err (curve25519_X25519 c ident Basepoint))))
                   (drop_err (curve25519_X25519 c (map (keystream f) [rpos f..<rpos f + 32])
                                Basepoint)
                    @ drop_err (curve25519_X25519 c ident Basepoint))
                   (str ''age-encryption.org/v1/X25519'') 32)
                (replicate 12 0) (fileKey f))"
proof -
  let ?recipient = "drop_err (curve25519_X25519 c ident Basepoint)"
  let ?ephemeral = "map (keystream f) [rpos f..<rpos f + 32]"
  let ?share = "drop_err (curve25519_X25519 c ?ephemeral Basepoint)"
  let ?secret = "drop_err (curve25519_X25519 c ?ephemeral ?recipient)"
  let ?key = "hkdf_Read c ?secret (?share @ ?recipient) (str ''age-encryption.org/v1/X25519'') 32"
  let ?f2 = "ArgsLine (f\<lparr>rpos := rpos f + 32\<rparr>) [''X25519'', b64 ?share]"
  have k: "length ?key = 32" by (simp add: hkdf_Read_def)
  have unfold: "X25519NoRecordIdentity c f ident = AEADBody c ?f2 ?key (fileKey ?f2)"
    by (simp add: X25519NoRecordIdentity_def Rand_def Let_def)
  have b2: "Buf ?f2 = Buf f @ str (''-> X25519 '' @ b64 ?share) @ str [CHR 0x0A]"
    by (simp add: ArgsLine_def Buf_TextLine)
  have fk: "fileKey ?f2 = fileKey f"
    by (simp add: ArgsLine_def fileKey_TextLine)
  from AEADBody_ok [OF k, of c ?f2 "fileKey ?f2"] obtain f' where
    "AEADBody c ?f2 ?key (fileKey ?f2) = Inr f'" and
    "Buf f' = Buf ?f2 @ body_text (seal c ?key (replicate 12 0) (fileKey ?f2))"
    by blast
  then have "X25519NoRecordIdentity c f ident = Inr f'
      \<and> Buf f' = Buf f @ str (''-> X25519 '' @ b64 ?share) @ str [CHR 0x0A]
                 @ body_text (seal c ?key (replicate 12 0) (fileKey f))"
    using unfold b2 fk by simp
  then show ?thesis by blast
qed

text \<open>
  Claim C4, as the code has it. \<open>X25519NoRecordIdentity\<close> always returns and appends a
  stanza: the line \<open>-> X25519 base64(share)\<close>, where \<open>share\<close> is X25519 of the 32 random
  bytes and the base point, and the body lines of the sealing, under the all-zero nonce,
  of the file key with the 32-byte key that HKDF derives from the shared secret, the salt
  \<open>share \<parallel> recipient\<close> and the info \<open>age-encryption.org/v1/X25519\<close>. The errors of the
  three X25519 calls are dropped: where the library reports one (a low-order point, that
  is an all-zero shared secret, or an argument that is not 32 bytes long) the value is the
  empty slice and the stanza is written all the same. Nothing is rejected.
\<close>

theorem X25519_stanza:
  "\<exists>f'. X25519NoRecordIdentity c f ident = Inr f'
     \<and> Buf f' =
         Buf f
         @ str (''-> X25519 '' @
                b64 (drop_err (curve25519_X25519 c (map (keystream f) [rpos f..<rpos f + 32])
                                 Basepoint)))
         @ str [CHR 0x0A]
         @ body_text
             (seal c
                (hkdf_Read c
                   (drop_err (curve25519_X25519 c (map (keystream f) [rpos f..<rpos f + 32])
                      (drop_err (curve25519_X25519 c ident Basepoint))))
                   (drop_err (curve25519_X25519 c (map (keystream f) [rpos f..<rpos f + 32])
                                Basepoint)
                    @ drop_err (curve25519_X25519 c ident Basepoint))
                   (str ''age-encryption.org/v1/X25519'') 32)
                (replicate 12 0) (fileKey f))"
  by (rule X25519_emits)

text \<open>
  Claim C4 as stated fails where it says that the wrap is rejected: with a library whose
  X25519 reports the low-order point for the shared secret, the generator still writes the
  stanza, keyed from the empty secret.
\<close>

theorem X25519_low_order_not_rejected:
  "curve25519_X25519 sample_crypto (map (keystream (NewTestFile sample_crypto)) [0..<32])
       (drop_err (curve25519_X25519 sample_crypto (replicate 32 7) Basepoint))
     = Inl ''bad input point: low order point''
   \<and> map_sum id Buf
        (X25519NoRecordIdentity sample_crypto (NewTestFile sample_crypto) (replicate 32 7))
     = Inr (str (''-> X25519 AAECAwQFBgcICQoLDA0ODxAREhMUFRYXGBkaGxwdHh8'' @ [CHR 0x0A]
                 @ ''WUVMTE9XIFNVQk1BUklORQAAAAAAAAAAAAAAAEBBQkM'' @ [CHR 0x0A]))"
  by code_simp

lemma shl1_small: "0 \<le> k \<Longrightarrow> k \<le> 62 \<Longrightarrow> shl1 k = Inr (2 ^ nat k)"
proof -
  assume a: "0 \<le> k" "k \<le> 62"
  have n: "nat k < 63" using a by simp
  have p: "(2::int) ^ nat k < 2 ^ 63"
    using n by (intro power_strict_increasing) simp_all
  have "sint (push_bit (nat k) (1 :: 64 word)) = signed_take_bit 63 (push_bit (nat k) 1)"
    using signed_push_bit_eq [of "nat k" "1 :: 64 word", where ?'a = int] by simp
  also have "\<dots> = 2 ^ nat k"
  proof -
    have "- (2 ^ 63) \<le> (2::int) ^ nat k"
      by (rule order_trans [of _ 0]) simp_all
    then have "signed_take_bit 63 ((2::int) ^ nat k) = 2 ^ nat k"
      using p by (rule signed_take_bit_int_eq_self)
    then show ?thesis by simp
  qed
  finally show ?thesis using a by (simp add: shl1_def)
qed

lemma Scrypt_emits:
  assumes "0 \<le> workFactor" and "workFactor \<le> 62"
    and "scrypt_Key c (str passphrase)
           (str ''age-encryption.org/v1/scrypt'' @ map (keystream f) [rpos f..<rpos f + 16])
           (2 ^ nat workFactor) 8 1 32 = Inr key"
    and "length key = 32"
  shows "\<exists>f'. ScryptNoRecordPassphrase c f passphrase workFactor = Inr f'
     \<and> Buf f' =
         Buf f
         @ str (''-> scrypt '' @ b64 (map (keystream f) [rpos f..<rpos f + 16]) @ '' ''
                @ Itoa workFactor)
         @ str [CHR 0x0A]
         @ body_text (seal c key (replicate 12 0) (fileKey f))"
proof -
  let ?salt = "map (keystream f) [rpos f..<rpos f + 16]"
  let ?f2 = "ArgsLine (f\<lparr>rpos := rpos f + 16\<rparr>) [''scrypt'', b64 ?salt, Itoa workFactor]"
  have unfold: "ScryptNoRecordPassphrase c f passphrase workFactor
      = AEADBody c ?f2 key (fileKey ?f2)"
    using assms(3) shl1_small [OF assms(1,2)]
    by (simp add: ScryptNoRecordPassphrase_def Rand_def Let_def drop_err_def)
  have b2: "Buf ?f2 = Buf f @ str (''-> scrypt '' @ b64 ?salt @ '' '' @ Itoa workFactor)
                      @ str [CHR 0x0A]"
    by (simp add: ArgsLine_def Buf_TextLine)
  have fk: "fileKey ?f2 = fileKey f"
    by (simp add: ArgsLine_def fileKey_TextLine)
  from AEADBody_ok [OF assms(4), of c ?f2 "fileKey ?f2"] obtain f' where
    "AEADBody c ?f2 key (fileKey ?f2) = Inr f'" and
    "Buf f' = Buf ?f2 @ body_text (seal c key (replicate 12 0) (fileKey ?f2))"
    by blast
  then have "ScryptNoRecordPassphrase c f passphrase workFactor = Inr f'
      \<and> Buf f' = Buf f @ str (''-> scrypt '' @ b64 ?salt @ '' '' @ Itoa workFactor)
                 @ str [CHR 0x0A] @ body_text (seal c key (replicate 12 0) (fileKey f))"
    using unfold b2 fk by simp
  then show ?thesis by blast
qed

text \<open>
  Claim C5, as the code has it. For a work factor from 0 to 62, where Go's
  \<open>1 << workFactor\<close> is \<open>2 ^ workFactor\<close>, and when \<open>scrypt.Key\<close> returns a 32-byte key
  for the passphrase, the salt \<open>age-encryption.org/v1/scrypt \<parallel> salt16\<close>, that \<open>N\<close>,
  \<open>r = 8\<close>, \<open>p = 1\<close> and length 32, \<open>ScryptNoRecordPassphrase\<close> appends the line
  \<open>-> scrypt base64(salt16) workFactor\<close>, the work factor in decimal, and the body lines
  of the sealing of the file key under that key and the all-zero nonce. \<open>salt16\<close> is the
  next 16 random bytes.
\<close>

theorem Scrypt_stanza:
  assumes "0 \<le> workFactor" and "workFactor \<le> 62"
    and "scrypt_Key c (str passphrase)
           (str ''age-encryption.org/v1/scrypt'' @ map (keystream f) [rpos f..<rpos f + 16])
           (2 ^ nat workFactor) 8 1 32 = Inr key"
    and "length key = 32"
  shows "\<exists>f'. ScryptNoRecordPassphrase c f passphrase workFactor = Inr f'
     \<and> Buf f' =
         Buf f
         @ str (''-> scrypt '' @ b64 (map (keystream f) [rpos f..<rpos f + 16]) @ '' ''
                @ Itoa workFactor)
         @ str [CHR 0x0A]
         @ body_text (seal c key (replicate 12 0) (fileKey f))"
  using assms by (rule Scrypt_emits)

theorem Scrypt_stanza_witness:
  "(0::int) \<le> 10 \<and> (10::int) \<le> 62
   \<and> scrypt_Key sample_crypto (str ''password'')
        (str ''age-encryption.org/v1/scrypt''
         @ map (keystream (NewTestFile sample_crypto)) [rpos (NewTestFile sample_crypto)..<
             rpos (NewTestFile sample_crypto) + 16])
        (2 ^ nat 10) 8 1 32 = Inr (replicate 32 0)
   \<and> length (replicate 32 (0::byte)) = 32
   \<and> map_sum id Buf (ScryptNoRecordPassphrase sample_crypto (NewTestFile sample_crypto)
        ''password'' 10)
     = Inr (str (''-> scrypt AAECAwQFBgcICQoLDA0ODw 10'' @ [CHR 0x0A]
                 @ ''WUVMTE9XIFNVQk1BUklORQAAAAAAAAAAAAAAAAAAAAA'' @ [CHR 0x0A]))"
proof -
  let ?f = "NewTestFile sample_crypto"
  have a: "(0::int) \<le> 10" and b: "(10::int) \<le> 62" by simp_all
  have s: "scrypt_Key sample_crypto (str ''password'')
        (str ''age-encryption.org/v1/scrypt'' @ map (keystream ?f) [rpos ?f..<rpos ?f + 16])
        (2 ^ nat 10) 8 1 32 = Inr (replicate 32 0)"
    by (simp add: sample_crypto_def)
  have l: "length (replicate 32 (0::byte)) = 32" by simp
  from Scrypt_stanza [OF a b s l] obtain f' where
    r: "ScryptNoRecordPassphrase sample_crypto ?f ''password'' 10 = Inr f'" and
    bf: "Buf f' = Buf ?f
         @ str (''-> scrypt '' @ b64 (map (keystream ?f) [rpos ?f..<rpos ?f + 16]) @ '' ''
                @ Itoa 10)
         @ str [CHR 0x0A]
         @ body_text (seal sample_crypto (replicate 32 0) (replicate 12 0) (fileKey ?f))"
    by blast
  have v: "Buf ?f
         @ str (''-> scrypt '' @ b64 (map (keystream ?f) [rpos ?f..<rpos ?f + 16]) @ '' ''
                @ Itoa 10)
         @ str [CHR 0x0A]
         @ body_text (seal sample_crypto (replicate 32 0) (replicate 12 0) (fileKey ?f))
      = str (''-> scrypt AAECAwQFBgcICQoLDA0ODw 10'' @ [CHR 0x0A]
             @ ''WUVMTE9XIFNVQk1BUklORQAAAAAAAAAAAAAAAAAAAAA'' @ [CHR 0x0A])"
    by code_simp
  have "map_sum id Buf (ScryptNoRecordPassphrase sample_crypto ?f ''password'' 10)
      = Inr (str (''-> scrypt AAECAwQFBgcICQoLDA0ODw 10'' @ [CHR 0x0A]
                 @ ''WUVMTE9XIFNVQk1BUklORQAAAAAAAAAAAAAAAAAAAAA'' @ [CHR 0x0A]))"
    unfolding r using bf v by simp
  then show ?thesis using a b s l by blast
qed

text \<open>
  Claim C5 as stated fails outside that range: at work factor 64 the shift gives
  \<open>N = 0\<close>, not \<open>2 ^ 64\<close>; a library that refuses \<open>N \<le> 1\<close> returns no key, and the
  generator, which drops the error, panics on the nil AEAD instead of writing a body.
\<close>

theorem Scrypt_shift_overflow:
  "shl1 64 = Inr 0 \<and> (2::int) ^ 64 \<noteq> 0
   \<and> map_sum id Buf
        (ScryptNoRecordPassphrase sample_crypto (NewTestFile sample_crypto) ''password'' 64)
     = Inl NilDereference"
  by code_simp

section \<open>Properties of the plugin client\<close>

subsection \<open>Answers and the two switches\<close>

lemma answer_sent:
  assumes "write_err cc (length (trace cc)) = None"
  shows "answer cc t b st = Continue (cc\<lparr>trace := trace cc @ [Sent (mk t [] b)]\<rparr>) st"
  using assms by (simp add: answer_def Marshal_def)

lemma answer_failed:
  assumes "write_err cc (length (trace cc)) = Some e"
  shows "answer cc t b st = Return e cc"
  using assms by (simp add: answer_def Marshal_def)

lemma answer_cases:
  "(\<exists>e. answer cc t b st = Return e cc) \<or>
   answer cc t b st = Continue (cc\<lparr>trace := trace cc @ [Sent (mk t [] b)]\<rparr>) st"
  by (cases "write_err cc (length (trace cc))") (simp_all add: answer_sent answer_failed)

lemma answer_Continue: "answer cc t b st = Continue cc' st' \<Longrightarrow> st' = st"
  by (auto simp: answer_def Marshal_def split: option.splits)

lemma answer_not_Break: "answer cc t b st \<noteq> Break cc' st'"
  by (auto simp: answer_def Marshal_def split: option.splits)

lemma on_msg_Continue: "on_msg d s cc st = Continue cc' st' \<Longrightarrow> st' = st"
  by (auto simp: on_msg_def split: option.splits dest: answer_Continue)

lemma on_msg_not_Break: "on_msg d s cc st \<noteq> Break cc' st'"
  by (auto simp: on_msg_def answer_not_Break split: option.splits)

lemma on_request_Continue: "on_request q s cc st = Continue cc' st' \<Longrightarrow> st' = st"
  by (auto simp: on_request_def split: option.splits sum.splits dest: answer_Continue)

lemma on_request_not_Break: "on_request q s cc st \<noteq> Break cc' st'"
  by (auto simp: on_request_def answer_not_Break split: option.splits sum.splits)

lemma on_error_Return: "\<exists>e cc'. on_error s cc = Return e cc'"
  by (auto simp: on_error_def Marshal_def split: option.splits)

lemma on_error_not_Continue: "on_error s cc \<noteq> Continue cc' st'"
  by (auto simp: on_error_def Marshal_def split: option.splits)

lemma on_error_not_Break: "on_error s cc \<noteq> Break cc' st'"
  by (auto simp: on_error_def Marshal_def split: option.splits)

lemma Wrap_switch_msg:
  "Type s = ''msg'' \<Longrightarrow> Wrap_switch r s cc st = on_msg (DisplayMessage r) s cc st"
  by (simp add: Wrap_switch_def)

lemma Wrap_switch_request:
  "Type s = ''request-secret'' \<or> Type s = ''request-public'' \<Longrightarrow>
   Wrap_switch r s cc st = on_request (RequestValue r) s cc st"
  by (auto simp: Wrap_switch_def)

lemma Wrap_switch_error: "Type s = ''error'' \<Longrightarrow> Wrap_switch r s cc st = on_error s cc"
  by (simp add: Wrap_switch_def)

lemma Wrap_switch_done: "Type s = ''done'' \<Longrightarrow> Wrap_switch r s cc st = Break cc st"
  by (simp add: Wrap_switch_def)

lemma Wrap_switch_other:
  assumes "Type s \<noteq> ''msg''" and "Type s \<noteq> ''request-secret''"
    and "Type s \<noteq> ''request-public''" and "Type s \<noteq> ''recipient-stanza''"
    and "Type s \<noteq> ''error''" and "Type s \<noteq> ''done''"
  shows "Wrap_switch r s cc st = answer cc ''unsupported'' None st"
  using assms by (simp add: Wrap_switch_def)

text \<open>What \<open>Wrap\<close> collects from a well-formed \<open>recipient-stanza\<close>.\<close>

lemma Wrap_switch_accepts:
  assumes "Type s = ''recipient-stanza''" and "2 \<le> length (Args s)"
    and "Atoi (Args s ! 0) = Some 0"
  shows "Wrap_switch r s cc stanzas =
           answer cc ''ok'' None (stanzas @ [mk (Args s ! 1) (drop 2 (Args s)) (StanzaBody s)])"
  using assms by (simp add: Wrap_switch_def)

lemma Wrap_switch_rejects:
  assumes "Type s = ''recipient-stanza''"
    and "\<not> (2 \<le> length (Args s) \<and> Atoi (Args s ! 0) = Some 0)"
  shows "Wrap_switch r s cc stanzas = Return malformed_recipient cc"
  using assms by (auto simp: Wrap_switch_def split: option.splits)

lemma Wrap_switch_Continue:
  assumes "Wrap_switch r s cc stanzas = Continue cc' stanzas'"
  shows "Type s \<noteq> ''done'' \<and> Type s \<noteq> ''error''
         \<and> (if Type s = ''recipient-stanza''
            then 2 \<le> length (Args s) \<and> Atoi (Args s ! 0) = Some 0
                 \<and> stanzas' = stanzas @ [mk (Args s ! 1) (drop 2 (Args s)) (StanzaBody s)]
            else stanzas' = stanzas)"
proof -
  consider (msg) "Type s = ''msg''"
    | (req) "Type s = ''request-secret'' \<or> Type s = ''request-public''"
    | (rcp) "Type s = ''recipient-stanza''"
    | (err) "Type s = ''error''"
    | (don) "Type s = ''done''"
    | (oth) "Type s \<noteq> ''msg''" "Type s \<noteq> ''request-secret''"
        "Type s \<noteq> ''request-public''" "Type s \<noteq> ''recipient-stanza''"
        "Type s \<noteq> ''error''" "Type s \<noteq> ''done''"
    by fast
  then show ?thesis
  proof cases
    case msg
    then have "on_msg (DisplayMessage r) s cc stanzas = Continue cc' stanzas'"
      using assms by (simp add: Wrap_switch_msg)
    then have "stanzas' = stanzas" by (rule on_msg_Continue)
    then show ?thesis using msg by simp
  next
    case req
    then have "on_request (RequestValue r) s cc stanzas = Continue cc' stanzas'"
      using assms by (simp add: Wrap_switch_request)
    then have "stanzas' = stanzas" by (rule on_request_Continue)
    then show ?thesis using req by auto
  next
    case rcp
    show ?thesis
    proof (cases "2 \<le> length (Args s) \<and> Atoi (Args s ! 0) = Some 0")
      case True
      then have "answer cc ''ok'' None
                   (stanzas @ [mk (Args s ! 1) (drop 2 (Args s)) (StanzaBody s)])
                 = Continue cc' stanzas'"
        using assms rcp by (simp add: Wrap_switch_accepts)
      then have "stanzas' = stanzas @ [mk (Args s ! 1) (drop 2 (Args s)) (StanzaBody s)]"
        by (rule answer_Continue)
      then show ?thesis using rcp True by simp
    next
      case False
      then show ?thesis using assms rcp by (simp add: Wrap_switch_rejects)
    qed
  next
    case err
    then show ?thesis using assms by (simp add: Wrap_switch_error on_error_not_Continue)
  next
    case don
    then show ?thesis using assms by (simp add: Wrap_switch_done)
  next
    case oth
    then have "answer cc ''unsupported'' None stanzas = Continue cc' stanzas'"
      using assms by (simp add: Wrap_switch_other)
    then have "stanzas' = stanzas" by (rule answer_Continue)
    then show ?thesis using oth by simp
  qed
qed

lemma Wrap_switch_Break:
  assumes "Wrap_switch r s cc stanzas = Break cc' stanzas'"
  shows "Type s = ''done'' \<and> stanzas' = stanzas"
proof -
  consider (msg) "Type s = ''msg''"
    | (req) "Type s = ''request-secret'' \<or> Type s = ''request-public''"
    | (rcp) "Type s = ''recipient-stanza''"
    | (err) "Type s = ''error''"
    | (don) "Type s = ''done''"
    | (oth) "Type s \<noteq> ''msg''" "Type s \<noteq> ''request-secret''"
        "Type s \<noteq> ''request-public''" "Type s \<noteq> ''recipient-stanza''"
        "Type s \<noteq> ''error''" "Type s \<noteq> ''done''"
    by fast
  then show ?thesis
  proof cases
    case msg
    then show ?thesis using assms by (simp add: Wrap_switch_msg on_msg_not_Break)
  next
    case req
    then show ?thesis using assms by (simp add: Wrap_switch_request on_request_not_Break)
  next
    case rcp
    show ?thesis
    proof (cases "2 \<le> length (Args s) \<and> Atoi (Args s ! 0) = Some 0")
      case True
      then show ?thesis using assms rcp by (simp add: Wrap_switch_accepts answer_not_Break)
    next
      case False
      then show ?thesis using assms rcp by (simp add: Wrap_switch_rejects)
    qed
  next
    case err
    then show ?thesis using assms by (simp add: Wrap_switch_error on_error_not_Break)
  next
    case don
    then show ?thesis using assms by (simp add: Wrap_switch_done)
  next
    case oth
    then show ?thesis using assms by (simp add: Wrap_switch_other answer_not_Break)
  qed
qed

text \<open>The stanzas that a successful read loop of \<open>Wrap\<close> returns.\<close>

lemma Wrap_loop_returns:
  assumes "Wrap_loop r rs cc acc = (Inr sts, cc')"
  shows "sts \<noteq> [] \<and>
         (\<exists>pre dn post. rs = map Inr pre @ Inr dn # post \<and> Type dn = ''done''
            \<and> (\<forall>s \<in> set pre. Type s \<noteq> ''done'' \<and> Type s \<noteq> ''error'' \<and>
                  (Type s = ''recipient-stanza'' \<longrightarrow>
                     2 \<le> length (Args s) \<and> Atoi (Args s ! 0) = Some 0))
            \<and> sts = acc @ map (\<lambda>s. mk (Args s ! 1) (drop 2 (Args s)) (StanzaBody s))
                           (filter (\<lambda>s. Type s = ''recipient-stanza'') pre))"
  using assms
proof (induction rs arbitrary: cc acc)
  case Nil
  then show ?case by simp
next
  case (Cons x rs)
  show ?case
  proof (cases x)
    case (Inl e)
    then show ?thesis using Cons.prems by simp
  next
    case (Inr s)
    show ?thesis
    proof (cases "Wrap_switch r s cc acc")
      case (Continue cc1 acc1)
      then have loop: "Wrap_loop r rs cc1 acc1 = (Inr sts, cc')"
        using Cons.prems Inr by simp
      note sw = Wrap_switch_Continue [OF Continue]
      from Cons.IH [OF loop] obtain pre dn post where
        ne: "sts \<noteq> []" and
        rs: "rs = map Inr pre @ Inr dn # post" and
        dn: "Type dn = ''done''" and
        all: "\<forall>s \<in> set pre. Type s \<noteq> ''done'' \<and> Type s \<noteq> ''error'' \<and>
                (Type s = ''recipient-stanza'' \<longrightarrow>
                   2 \<le> length (Args s) \<and> Atoi (Args s ! 0) = Some 0)" and
        sts: "sts = acc1 @ map (\<lambda>s. mk (Args s ! 1) (drop 2 (Args s)) (StanzaBody s))
                            (filter (\<lambda>s. Type s = ''recipient-stanza'') pre)"
        by blast
      have 1: "x # rs = map Inr (s # pre) @ Inr dn # post" using rs Inr by simp
      have hd: "Type s \<noteq> ''done'' \<and> Type s \<noteq> ''error'' \<and>
                (Type s = ''recipient-stanza'' \<longrightarrow>
                   2 \<le> length (Args s) \<and> Atoi (Args s ! 0) = Some 0)"
        using sw by (cases "Type s = ''recipient-stanza''") simp_all
      have 2: "\<forall>s \<in> set (s # pre). Type s \<noteq> ''done'' \<and> Type s \<noteq> ''error'' \<and>
                (Type s = ''recipient-stanza'' \<longrightarrow>
                   2 \<le> length (Args s) \<and> Atoi (Args s ! 0) = Some 0)"
        using all hd by simp
      have 3: "sts = acc @ map (\<lambda>s. mk (Args s ! 1) (drop 2 (Args s)) (StanzaBody s))
                            (filter (\<lambda>s. Type s = ''recipient-stanza'') (s # pre))"
        using sts sw by (cases "Type s = ''recipient-stanza''") simp_all
      show ?thesis
      proof (intro conjI exI)
        show "sts \<noteq> []" by (rule ne)
        show "x # rs = map Inr (s # pre) @ Inr dn # post" by (rule 1)
        show "Type dn = ''done''" by (rule dn)
        show "\<forall>s \<in> set (s # pre). Type s \<noteq> ''done'' \<and> Type s \<noteq> ''error'' \<and>
                (Type s = ''recipient-stanza'' \<longrightarrow>
                   2 \<le> length (Args s) \<and> Atoi (Args s ! 0) = Some 0)" by (rule 2)
        show "sts = acc @ map (\<lambda>s. mk (Args s ! 1) (drop 2 (Args s)) (StanzaBody s))
                            (filter (\<lambda>s. Type s = ''recipient-stanza'') (s # pre))"
          by (rule 3)
      qed
    next
      case (Break cc1 acc1)
      note sw = Wrap_switch_Break [OF Break]
      have res: "sts = acc \<and> acc \<noteq> []"
        using Cons.prems Inr Break sw by (simp split: if_splits)
      show ?thesis
      proof (intro conjI exI)
        show "sts \<noteq> []" using res by simp
        show "x # rs = map Inr [] @ Inr s # rs" using Inr by simp
        show "Type s = ''done''" using sw by simp
        show "\<forall>s \<in> set []. Type s \<noteq> ''done'' \<and> Type s \<noteq> ''error'' \<and>
                (Type s = ''recipient-stanza'' \<longrightarrow>
                   2 \<le> length (Args s) \<and> Atoi (Args s ! 0) = Some 0)" by simp
        show "sts = acc @ map (\<lambda>s. mk (Args s ! 1) (drop 2 (Args s)) (StanzaBody s))
                            (filter (\<lambda>s. Type s = ''recipient-stanza'') [])"
          using res by simp
      qed
    next
      case (Return e cc1)
      then show ?thesis using Cons.prems Inr by simp
    qed
  qed
qed

lemma Wrap_session_loop:
  assumes "Wrap_session r file_key rs cc = (Inr sts, cc')"
  shows "\<exists>cc3. Wrap_loop r rs cc3 [] = (Inr sts, cc')"
  using assms
  by (auto simp: Wrap_session_def split: prod.splits option.splits)

lemma fst_Wrap:
  "fst (Wrap w r file_key) =
     (case openClientConnection w (name r) ''recipient-v1'' of
        Inl e \<Rightarrow> Inl (PluginError (name r) (CouldNotStart e))
      | Inr cc \<Rightarrow> wrap_err (name r) (fst (Wrap_session r file_key (reads w) cc)))"
  by (simp add: Wrap_def wrap_err_def Close_def split: sum.splits prod.splits)

lemma Wrap_returns:
  assumes "fst (Wrap w r file_key) = Inr sts"
  shows "\<exists>cc3 cc'. Wrap_loop r (reads w) cc3 [] = (Inr sts, cc')"
proof -
  obtain cc where "openClientConnection w (name r) ''recipient-v1'' = Inr cc"
    and "wrap_err (name r) (fst (Wrap_session r file_key (reads w) cc)) = Inr sts"
    using assms by (auto simp: fst_Wrap split: sum.splits)
  then have "fst (Wrap_session r file_key (reads w) cc) = Inr sts"
    by (auto simp: wrap_err_def split: sum.splits)
  then obtain cc' where "Wrap_session r file_key (reads w) cc = (Inr sts, cc')"
    by (cases "Wrap_session r file_key (reads w) cc") simp
  then show ?thesis using Wrap_session_loop by blast
qed

lemma Wrap_loop_accepts:
  assumes "Type s = ''recipient-stanza''" and "2 \<le> length (Args s)"
    and "Atoi (Args s ! 0) = Some 0"
  shows "(write_err cc (length (trace cc)) = None \<longrightarrow>
            Wrap_loop r (Inr s # rs) cc stanzas =
              Wrap_loop r rs (cc\<lparr>trace := trace cc @ [Sent (mk ''ok'' [] None)]\<rparr>)
                (stanzas @ [mk (Args s ! 1) (drop 2 (Args s)) (StanzaBody s)]))
         \<and> (\<forall>e. write_err cc (length (trace cc)) = Some e \<longrightarrow>
               Wrap_loop r (Inr s # rs) cc stanzas = (Inl e, cc))"
  using assms by (simp add: Wrap_switch_accepts answer_sent answer_failed)

lemma Wrap_loop_rejects:
  assumes "Type s = ''recipient-stanza''"
    and "\<not> (2 \<le> length (Args s) \<and> Atoi (Args s ! 0) = Some 0)"
  shows "Wrap_loop r (Inr s # rs) cc stanzas = (Inl malformed_recipient, cc)"
  using assms by (simp add: Wrap_switch_rejects)

lemma Wrap_loop_done_empty:
  assumes "Type s = ''done''"
  shows "Wrap_loop r (Inr s # rs) cc [] = (Inl (Errorf ''received zero recipient stanzas''), cc)"
  using assms by (simp add: Wrap_switch_done)

lemma Wrap_never_empty: "fst (Wrap w r file_key) \<noteq> Inr []"
proof
  assume "fst (Wrap w r file_key) = Inr []"
  from Wrap_returns [OF this] obtain cc3 cc' where
    "Wrap_loop r (reads w) cc3 [] = (Inr [], cc')" by blast
  from Wrap_loop_returns [OF this] show False by simp
qed

lemma Wrap_collects:
  assumes "fst (Wrap w r file_key) = Inr sts"
  shows "\<exists>pre dn post. reads w = map Inr pre @ Inr dn # post \<and> Type dn = ''done''
           \<and> (\<forall>s \<in> set pre. Type s = ''recipient-stanza'' \<longrightarrow>
                 2 \<le> length (Args s) \<and> Atoi (Args s ! 0) = Some 0)
           \<and> sts = map (\<lambda>s. mk (Args s ! 1) (drop 2 (Args s)) (StanzaBody s))
                      (filter (\<lambda>s. Type s = ''recipient-stanza'') pre)"
proof -
  from Wrap_returns [OF assms] obtain cc3 cc' where
    "Wrap_loop r (reads w) cc3 [] = (Inr sts, cc')" by blast
  from Wrap_loop_returns [OF this] obtain pre dn post where
    1: "reads w = map Inr pre @ Inr dn # post" and 2: "Type dn = ''done''" and
    3: "\<forall>s \<in> set pre. Type s \<noteq> ''done'' \<and> Type s \<noteq> ''error'' \<and>
          (Type s = ''recipient-stanza'' \<longrightarrow>
             2 \<le> length (Args s) \<and> Atoi (Args s ! 0) = Some 0)" and
    4: "sts = [] @ map (\<lambda>s. mk (Args s ! 1) (drop 2 (Args s)) (StanzaBody s))
                     (filter (\<lambda>s. Type s = ''recipient-stanza'') pre)"
    by blast
  show ?thesis
  proof (intro exI conjI)
    show "reads w = map Inr pre @ Inr dn # post" by (rule 1)
    show "Type dn = ''done''" by (rule 2)
    show "\<forall>s \<in> set pre. Type s = ''recipient-stanza'' \<longrightarrow>
            2 \<le> length (Args s) \<and> Atoi (Args s ! 0) = Some 0"
      using 3 by simp
    show "sts = map (\<lambda>s. mk (Args s ! 1) (drop 2 (Args s)) (StanzaBody s))
                  (filter (\<lambda>s. Type s = ''recipient-stanza'') pre)"
      using 4 by simp
  qed
qed

lemma Wrap_error_wrapped:
  assumes "openClientConnection w (name r) ''recipient-v1'' = Inr cc0"
    and "fst (Wrap_session r file_key (reads w) cc0) = Inl e"
  shows "fst (Wrap w r file_key) = Inl (PluginError (name r) e)"
  using assms by (simp add: fst_Wrap wrap_err_def)

text \<open>
  Claim C7. In the read loop of \<open>Wrap\<close>, a \<open>recipient-stanza\<close> with at least two arguments
  whose first argument parses as the integer 0 adds the stanza with type \<open>args[1]\<close>,
  arguments \<open>args[2:]\<close> and the received body to the collected ones and is answered with
  \<open>ok\<close> (if that write fails, \<open>Wrap\<close> returns the write error); any other
  \<open>recipient-stanza\<close> ends the loop with the malformed-recipient-stanza error; \<open>done\<close>
  with nothing collected ends it with an error. Whatever the plugin sends, \<open>Wrap\<close> never
  returns the empty list, and a list it returns holds, in order, the converted recipient
  stanzas read before \<open>done\<close>, all of them well formed. Errors of the session leave
  \<open>Wrap\<close> under the plugin's name.
\<close>

theorem Wrap_recipient_stanza:
  "(Type s = ''recipient-stanza'' \<longrightarrow> 2 \<le> length (Args s) \<longrightarrow> Atoi (Args s ! 0) = Some 0 \<longrightarrow>
      (write_err cc (length (trace cc)) = None \<longrightarrow>
         Wrap_loop r (Inr s # rs) cc stanzas =
           Wrap_loop r rs (cc\<lparr>trace := trace cc @ [Sent (mk ''ok'' [] None)]\<rparr>)
             (stanzas @ [mk (Args s ! 1) (drop 2 (Args s)) (StanzaBody s)]))
      \<and> (\<forall>e. write_err cc (length (trace cc)) = Some e \<longrightarrow>
            Wrap_loop r (Inr s # rs) cc stanzas = (Inl e, cc)))
   \<and> (Type s = ''recipient-stanza'' \<longrightarrow>
        \<not> (2 \<le> length (Args s) \<and> Atoi (Args s ! 0) = Some 0) \<longrightarrow>
        Wrap_loop r (Inr s # rs) cc stanzas = (Inl malformed_recipient, cc))
   \<and> (Type s = ''done'' \<longrightarrow>
        Wrap_loop r (Inr s # rs) cc [] =
          (Inl (Errorf ''received zero recipient stanzas''), cc))
   \<and> fst (Wrap w r file_key) \<noteq> Inr []
   \<and> (fst (Wrap w r file_key) = Inr sts \<longrightarrow>
        (\<exists>pre dn post. reads w = map Inr pre @ Inr dn # post \<and> Type dn = ''done''
           \<and> (\<forall>s \<in> set pre. Type s = ''recipient-stanza'' \<longrightarrow>
                 2 \<le> length (Args s) \<and> Atoi (Args s ! 0) = Some 0)
           \<and> sts = map (\<lambda>s. mk (Args s ! 1) (drop 2 (Args s)) (StanzaBody s))
                      (filter (\<lambda>s. Type s = ''recipient-stanza'') pre)))
   \<and> (\<forall>cc0 e. openClientConnection w (name r) ''recipient-v1'' = Inr cc0 \<longrightarrow>
         fst (Wrap_session r file_key (reads w) cc0) = Inl e \<longrightarrow>
         fst (Wrap w r file_key) = Inl (PluginError (name r) e))"
proof (intro conjI impI allI)
  assume a: "Type s = ''recipient-stanza''" "2 \<le> length (Args s)" "Atoi (Args s ! 0) = Some 0"
  {
    assume "write_err cc (length (trace cc)) = None"
    then show "Wrap_loop r (Inr s # rs) cc stanzas =
           Wrap_loop r rs (cc\<lparr>trace := trace cc @ [Sent (mk ''ok'' [] None)]\<rparr>)
             (stanzas @ [mk (Args s ! 1) (drop 2 (Args s)) (StanzaBody s)])"
      using Wrap_loop_accepts [OF a] by blast
  }
  {
    fix e
    assume "write_err cc (length (trace cc)) = Some e"
    then show "Wrap_loop r (Inr s # rs) cc stanzas = (Inl e, cc)"
      using Wrap_loop_accepts [OF a] by blast
  }
next
  assume "Type s = ''recipient-stanza''"
    and "\<not> (2 \<le> length (Args s) \<and> Atoi (Args s ! 0) = Some 0)"
  then show "Wrap_loop r (Inr s # rs) cc stanzas = (Inl malformed_recipient, cc)"
    by (rule Wrap_loop_rejects)
next
  assume "Type s = ''done''"
  then show "Wrap_loop r (Inr s # rs) cc [] =
          (Inl (Errorf ''received zero recipient stanzas''), cc)"
    by (rule Wrap_loop_done_empty)
next
  show "fst (Wrap w r file_key) \<noteq> Inr []" by (rule Wrap_never_empty)
next
  assume "fst (Wrap w r file_key) = Inr sts"
  then show "\<exists>pre dn post. reads w = map Inr pre @ Inr dn # post \<and> Type dn = ''done''
           \<and> (\<forall>s \<in> set pre. Type s = ''recipient-stanza'' \<longrightarrow>
                 2 \<le> length (Args s) \<and> Atoi (Args s ! 0) = Some 0)
           \<and> sts = map (\<lambda>s. mk (Args s ! 1) (drop 2 (Args s)) (StanzaBody s))
                      (filter (\<lambda>s. Type s = ''recipient-stanza'') pre)"
    by (rule Wrap_collects)
next
  fix cc0 e
  assume "openClientConnection w (name r) ''recipient-v1'' = Inr cc0"
    and "fst (Wrap_session r file_key (reads w) cc0) = Inl e"
  then show "fst (Wrap w r file_key) = Inl (PluginError (name r) e)"
    by (rule Wrap_error_wrapped)
qed

end
